theory Spec2Isabelle
  imports Complex_Main "HOL-Library.Word"
begin

section \<open>The filter-chain graph of module-filter-chain.c\<close>

text \<open>
  The C structs \<^verbatim>\<open>port\<close>, \<^verbatim>\<open>node\<close>, \<^verbatim>\<open>link\<close> and \<^verbatim>\<open>graph\<close>
  become records. Pointers become indices with stable meaning:
  \<^item> a \<^verbatim>\<open>struct node *\<close> is the position of the node in \<^verbatim>\<open>graph->node_list\<close>
    (nodes are only ever appended, by \<^verbatim>\<open>load_node\<close>, and only freed at teardown);
  \<^item> a \<^verbatim>\<open>struct port *\<close> is a pair (node position, position in the port array); which
    of the four arrays of the node it points into is fixed by the place the pointer is
    stored (\<^verbatim>\<open>link->output\<close> points into \<^verbatim>\<open>output_port\<close>, \<^verbatim>\<open>link->input\<close>
    into \<^verbatim>\<open>input_port\<close>, \<^verbatim>\<open>graph->control_port[i]\<close> into \<^verbatim>\<open>control_port\<close>);
  \<^item> a plugin handle \<^verbatim>\<open>node->hndl[i]\<close> is the pair (node position, i);
  \<^item> an \<^verbatim>\<open>spa_list\<close> is a HOL list in list order (\<^verbatim>\<open>spa_list_append\<close> adds
    at the end, \<^verbatim>\<open>spa_list_for_each\<close> walks from the front).
  The counters \<^verbatim>\<open>n_links\<close> (\<^verbatim>\<open>uint32_t\<close>) and \<^verbatim>\<open>n_deps\<close> (\<^verbatim>\<open>unsigned int\<close>)
  are 32-bit words: \<^verbatim>\<open>++\<close> and \<^verbatim>\<open>--\<close> wrap around as in C.
  The type of a control value (C \<^verbatim>\<open>float\<close>) is the type parameter \<open>'f\<close>.
\<close>

type_synonym u32 = "32 word"

text \<open>
  C error returns: \<open>Inl e\<close> is the return value \<^verbatim>\<open>-e\<close>. \<open>Errno n\<close> is any errno
  value other than the five named ones (a plugin may fail with whatever errno it likes).
  \<open>Undefined\<close> is no errno: it marks a call whose behaviour C leaves undefined (a read
  through the head of an empty \<^verbatim>\<open>spa_list\<close>).
\<close>

datatype error = EINVAL | ENOENT | ENOTSUP | EBUSY | ENOMEM | Errno nat | Undefined

definition MAX_HNDL :: u32 where
  "MAX_HNDL = 64"

definition SPA_ID_INVALID :: u32 where
  "SPA_ID_INVALID = 0xffffffff"

datatype fc_flag = FC_PORT_INPUT | FC_PORT_OUTPUT | FC_PORT_CONTROL | FC_PORT_AUDIO

datatype fc_hint = FC_HINT_BOOLEAN | FC_HINT_SAMPLE_RATE | FC_HINT_INTEGER

text \<open>
  \<^verbatim>\<open>struct fc_port\<close> (declared in plugin.h): the fields the engine code below reads.
\<close>

record fc_port =
  port_name :: string
  port_hint :: "fc_hint set"

text \<open>
  \<^verbatim>\<open>struct descriptor\<close> together with the \<^verbatim>\<open>fc_descriptor\<close> it wraps.
  \<open>d_input\<close>, \<open>d_output\<close>, \<open>d_control\<close>, \<open>d_notify\<close> are the arrays
  \<^verbatim>\<open>desc->input\<close> ... of positions in \<open>d_ports\<close>; the counts \<^verbatim>\<open>n_input\<close> ... are
  their lengths. \<open>d_instantiate i\<close> is the outcome of the plugin's
  \<^verbatim>\<open>instantiate(d, &rate, i, config)\<close>: \<open>None\<close> when it returns a handle,
  \<open>Some e\<close> when it returns NULL with \<^verbatim>\<open>errno\<close> set to \<open>e\<close>.
\<close>

record 'f descriptor =
  d_ports :: "fc_port list"
  d_instantiate :: "nat \<Rightarrow> error option"
  d_input :: "nat list"
  d_output :: "nat list"
  d_control :: "nat list"
  d_notify :: "nat list"
  default_control :: "'f list"

type_synonym port_ref = "nat \<times> nat"

record link =
  link_output :: port_ref
  link_input :: port_ref

record 'f port =
  idx :: nat
  p :: nat
  port_link_list :: "link list"
  n_links :: u32
  external :: u32
  control_data :: 'f
  audio_data :: "bool list"

record 'f node =
  node_name :: string
  desc :: "'f descriptor"
  input_port :: "'f port list"
  output_port :: "'f port list"
  control_port :: "'f port list"
  notify_port :: "'f port list"
  n_hndl :: nat
  n_deps :: u32
  visited :: bool

text \<open>
  \<^verbatim>\<open>struct graph_port\<close>: \<open>None\<close> is an entry whose \<^verbatim>\<open>desc\<close> is NULL; otherwise
  the handle (node, instance) and the plugin port number. \<^verbatim>\<open>struct graph_hndl\<close> is the
  handle alone: its \<^verbatim>\<open>desc\<close> is the descriptor of the handle's node.
\<close>

record graph_port =
  gp_hndl :: "nat \<times> nat"
  gp_port :: nat

record 'f graph =
  node_list :: "'f node list"
  link_list :: "link list"
  graph_input :: "graph_port option list"
  graph_output :: "graph_port option list"
  graph_hndl :: "(nat \<times> nat) list"
  graph_control_port :: "port_ref list"

subsection \<open>Reading and updating through a node or port pointer\<close>

definition upd_node :: "nat \<Rightarrow> ('f node \<Rightarrow> 'f node) \<Rightarrow> 'f graph \<Rightarrow> 'f graph" where
  "upd_node k f g = g\<lparr>node_list := (node_list g)[k := f (node_list g ! k)]\<rparr>"

definition get_input_port :: "'f graph \<Rightarrow> port_ref \<Rightarrow> 'f port" where
  "get_input_port g r = input_port (node_list g ! fst r) ! snd r"

definition get_output_port :: "'f graph \<Rightarrow> port_ref \<Rightarrow> 'f port" where
  "get_output_port g r = output_port (node_list g ! fst r) ! snd r"

definition get_control_port :: "'f graph \<Rightarrow> port_ref \<Rightarrow> 'f port" where
  "get_control_port g r = control_port (node_list g ! fst r) ! snd r"

definition upd_input_port :: "port_ref \<Rightarrow> ('f port \<Rightarrow> 'f port) \<Rightarrow> 'f graph \<Rightarrow> 'f graph" where
  "upd_input_port r f =
     upd_node (fst r) (\<lambda>n. n\<lparr>input_port := (input_port n)[snd r := f (input_port n ! snd r)]\<rparr>)"

definition upd_output_port :: "port_ref \<Rightarrow> ('f port \<Rightarrow> 'f port) \<Rightarrow> 'f graph \<Rightarrow> 'f graph" where
  "upd_output_port r f =
     upd_node (fst r) (\<lambda>n. n\<lparr>output_port := (output_port n)[snd r := f (output_port n ! snd r)]\<rparr>)"

definition upd_control_port :: "port_ref \<Rightarrow> ('f port \<Rightarrow> 'f port) \<Rightarrow> 'f graph \<Rightarrow> 'f graph" where
  "upd_control_port r f =
     upd_node (fst r) (\<lambda>n. n\<lparr>control_port := (control_port n)[snd r := f (control_port n ! snd r)]\<rparr>)"

subsection \<open>find_node and find_port\<close>

fun find_node_from :: "'f node list \<Rightarrow> string \<Rightarrow> nat \<Rightarrow> nat option" where
  "find_node_from [] nm k = None"
| "find_node_from (n # ns) nm k =
     (if node_name n = nm then Some k else find_node_from ns nm (Suc k))"

definition find_node :: "'f graph \<Rightarrow> string \<Rightarrow> nat option" where
  "find_node g nm = find_node_from (node_list g) nm 0"

text \<open>
  The loop at the end of \<^verbatim>\<open>find_port\<close>: the first port whose position equals
  \<^verbatim>\<open>port_id\<close> or whose descriptor name equals \<^verbatim>\<open>port_name\<close>. The port arrays are
  allocated by \<^verbatim>\<open>load_node\<close> with exactly \<^verbatim>\<open>desc->n_input\<close> ... entries, so the loop
  bound is the length of the array.
\<close>

fun find_port_loop :: "fc_port list \<Rightarrow> u32 \<Rightarrow> string \<Rightarrow> 'f port list \<Rightarrow> nat \<Rightarrow> nat option" where
  "find_port_loop dp port_id pname [] i = None"
| "find_port_loop dp port_id pname (q # qs) i =
     (if of_nat i = port_id \<or> port_name (dp ! p q) = pname then Some i
      else find_port_loop dp port_id pname qs (Suc i))"

text \<open>
  \<^verbatim>\<open>find_port(node, name, descriptor)\<close>, in the three steps of the source.
  The string is split at its first colon (\<^verbatim>\<open>strchr\<close>): with a colon the part before
  it names the node, which \<^verbatim>\<open>find_node\<close> looks up, and the part after it the port;
  without one the node is the one passed in. The \<open>descriptor\<close> flags choose one of the
  four port arrays of the node. \<open>atou32\<close> stands for \<^verbatim>\<open>spa_atou32(s, &v, 0)\<close> of
  spa/utils/string.h: \<open>Some v\<close> when it returns true. The result is the port pointer.
\<close>

definition find_port_split :: "string \<Rightarrow> string option \<times> string" where
  "find_port_split nm =
     (if CHR '':'' \<in> set nm
      then (Some (takeWhile (\<lambda>c. c \<noteq> CHR '':'') nm), tl (dropWhile (\<lambda>c. c \<noteq> CHR '':'') nm))
      else (None, nm))"

definition find_port_ports :: "'f node \<Rightarrow> fc_flag set \<Rightarrow> 'f port list option" where
  "find_port_ports n descriptor =
     (if FC_PORT_INPUT \<in> descriptor then
        (if FC_PORT_CONTROL \<in> descriptor then Some (control_port n) else Some (input_port n))
      else if FC_PORT_OUTPUT \<in> descriptor then
        (if FC_PORT_CONTROL \<in> descriptor then Some (notify_port n) else Some (output_port n))
      else None)"

definition find_port ::
  "(string \<Rightarrow> u32 option) \<Rightarrow> 'f graph \<Rightarrow> nat \<Rightarrow> string \<Rightarrow> fc_flag set \<Rightarrow> port_ref option" where
  "find_port atou32 g node nm descriptor =
     (case (case fst (find_port_split nm) of
              Some s \<Rightarrow> find_node g s
            | None \<Rightarrow> Some node) of
        None \<Rightarrow> None
      | Some k \<Rightarrow>
         (case find_port_ports (node_list g ! k) descriptor of
            None \<Rightarrow> None
          | Some ports \<Rightarrow>
              map_option (\<lambda>i. (k, i))
                (find_port_loop (d_ports (desc (node_list g ! k)))
                   (case atou32 (snd (find_port_split nm)) of
                      Some v \<Rightarrow> v
                    | None \<Rightarrow> SPA_ID_INVALID)
                   (snd (find_port_split nm)) ports 0)))"

section \<open>Graph builder: load_node, parse_link and link_free\<close>

text \<open>The graph after \<^verbatim>\<open>calloc\<close> of \<^verbatim>\<open>impl\<close> and the two \<^verbatim>\<open>spa_list_init\<close> of \<^verbatim>\<open>load_graph\<close>.\<close>

definition graph_init :: "'f graph" where
  "graph_init = \<lparr>node_list = [], link_list = [], graph_input = [], graph_output = [],
     graph_hndl = [], graph_control_port = []\<rparr>"

text \<open>
  The part of \<^verbatim>\<open>load_node\<close> that builds the node (lines 1509-1561), for a node
  object with no \<^verbatim>\<open>control\<close> and no \<^verbatim>\<open>config\<close> key whose descriptor
  \<^verbatim>\<open>descriptor_load\<close> returned: \<^verbatim>\<open>calloc\<close> zeroes the node and its port arrays
  (\<open>z\<close> is the float 0.0), the loops set \<^verbatim>\<open>idx\<close>, \<^verbatim>\<open>p\<close>, \<^verbatim>\<open>external\<close> and, for a
  control port, the default value; the node is appended to the node list.
\<close>

definition load_node_port :: "nat \<Rightarrow> nat \<Rightarrow> 'f \<Rightarrow> 'f port" where
  "load_node_port i pp cd =
     \<lparr>idx = i, p = pp, port_link_list = [], n_links = 0, external = SPA_ID_INVALID,
      control_data = cd, audio_data = replicate (unat MAX_HNDL) False\<rparr>"

definition load_node :: "'f \<Rightarrow> string \<Rightarrow> 'f descriptor \<Rightarrow> 'f graph \<Rightarrow> 'f graph" where
  "load_node z nm d g =
     g\<lparr>node_list := node_list g @
        [\<lparr>node_name = nm, desc = d,
          input_port = map (\<lambda>i. load_node_port i (d_input d ! i) z) [0..<length (d_input d)],
          output_port = map (\<lambda>i. load_node_port i (d_output d ! i) z) [0..<length (d_output d)],
          control_port =
            map (\<lambda>i. load_node_port i (d_control d ! i) (default_control d ! i))
              [0..<length (d_control d)],
          notify_port = map (\<lambda>i. load_node_port i (d_notify d ! i) z) [0..<length (d_notify d)],
          n_hndl = 0, n_deps = 0, visited = False\<rparr>]\<rparr>"

text \<open>
  A link object of the description after tokenising: the keys in order, each with the
  string \<^verbatim>\<open>spa_json_get_string\<close> reads as its value, or \<open>JOther\<close> where that call
  does not return a string.
\<close>

datatype json_value = JString string | JOther

fun parse_link_keys :: "(string \<times> json_value) list \<Rightarrow> string \<times> string \<Rightarrow> error + (string \<times> string)" where
  "parse_link_keys [] oi = Inr oi"
| "parse_link_keys ((key, v) # kvs) (out, inp) =
     (if key = ''output'' then
        (case v of JString s \<Rightarrow> parse_link_keys kvs (s, inp) | JOther \<Rightarrow> Inl EINVAL)
      else if key = ''input'' then
        (case v of JString s \<Rightarrow> parse_link_keys kvs (out, s) | JOther \<Rightarrow> Inl EINVAL)
      else parse_link_keys kvs (out, inp))"

text \<open>
  The writes of \<^verbatim>\<open>parse_link\<close> once the link is allocated (lines 1403-1419): the
  link goes on the list of its output port and of its input port, both \<^verbatim>\<open>n_links\<close>
  and the \<^verbatim>\<open>n_deps\<close> of the input port's node are incremented, and the link goes on
  the list of the graph.
\<close>

definition parse_link_add :: "port_ref \<Rightarrow> port_ref \<Rightarrow> 'f graph \<Rightarrow> 'f graph" where
  "parse_link_add out_port in_port g =
     (let l = \<lparr>link_output = out_port, link_input = in_port\<rparr>;
          g1 = upd_output_port out_port
                 (\<lambda>q. q\<lparr>port_link_list := port_link_list q @ [l], n_links := n_links q + 1\<rparr>) g;
          g2 = upd_input_port in_port
                 (\<lambda>q. q\<lparr>port_link_list := port_link_list q @ [l], n_links := n_links q + 1\<rparr>) g1;
          g3 = upd_node (fst in_port) (\<lambda>n. n\<lparr>n_deps := n_deps n + 1\<rparr>) g2
      in g3\<lparr>link_list := link_list g3 @ [l]\<rparr>)"

text \<open>
  \<^verbatim>\<open>parse_link\<close>. \<open>calloc_ok\<close> tells whether the \<^verbatim>\<open>calloc\<close> of the link succeeds.
  The default node of the output is the first node, that of the input the last.
  The result is the return value (\<open>None\<close> for 0, \<open>Some e\<close> for \<^verbatim>\<open>-e\<close>) and the graph
  the call leaves behind.
\<close>

definition parse_link ::
  "(string \<Rightarrow> u32 option) \<Rightarrow> bool \<Rightarrow> 'f graph \<Rightarrow> (string \<times> json_value) list
     \<Rightarrow> error option \<times> 'f graph" where
  "parse_link atou32 calloc_ok g json =
     (if node_list g = [] then (Some EINVAL, g)
      else case parse_link_keys json ('''', '''') of
        Inl e \<Rightarrow> (Some e, g)
      | Inr (out, inp) \<Rightarrow>
         (case find_port atou32 g 0 out {FC_PORT_OUTPUT} of
            None \<Rightarrow> (Some ENOENT, g)
          | Some out_port \<Rightarrow>
             (case find_port atou32 g (length (node_list g) - 1) inp {FC_PORT_INPUT} of
                None \<Rightarrow> (Some ENOENT, g)
              | Some in_port \<Rightarrow>
                 if n_links (get_input_port g in_port) > 0 then (Some ENOTSUP, g)
                 else if \<not> calloc_ok then (Some ENOMEM, g)
                 else (None, parse_link_add out_port in_port g))))"

text \<open>
  \<^verbatim>\<open>link_free\<close>: \<^verbatim>\<open>spa_list_remove\<close> takes the link out of the three lists it is on.
\<close>

definition link_free :: "link \<Rightarrow> 'f graph \<Rightarrow> 'f graph" where
  "link_free l g =
     (let g1 = upd_input_port (link_input l)
                 (\<lambda>q. q\<lparr>port_link_list := remove1 l (port_link_list q),
                         n_links := n_links q - 1\<rparr>) g;
          g2 = upd_node (fst (link_input l)) (\<lambda>n. n\<lparr>n_deps := n_deps n - 1\<rparr>) g1;
          g3 = upd_output_port (link_output l)
                 (\<lambda>q. q\<lparr>port_link_list := remove1 l (port_link_list q),
                         n_links := n_links q - 1\<rparr>) g2
      in g3\<lparr>link_list := remove1 l (link_list g3)\<rparr>)"

text \<open>
  The graphs the builder can reach: from the empty graph by \<^verbatim>\<open>load_node\<close>,
  by \<^verbatim>\<open>parse_link\<close> (whatever it returns) and by \<^verbatim>\<open>link_free\<close> of a link of
  the graph.
\<close>

inductive builder :: "'f graph \<Rightarrow> bool" where
  builder_init: "builder graph_init"
| builder_node: "builder g \<Longrightarrow> builder (load_node z nm d g)"
| builder_link: "builder g \<Longrightarrow> builder (snd (parse_link atou32 calloc_ok g json))"
| builder_free: "builder g \<Longrightarrow> l \<in> set (link_list g) \<Longrightarrow> builder (link_free l g)"

text \<open>
  What the builder keeps true. A port's list is the links of the graph that end
  (input port) or start (output port) at it, in order, and \<^verbatim>\<open>n_links\<close> is its
  length as a 32-bit counter; an input port has at most one link; \<^verbatim>\<open>n_deps\<close> of a
  node counts the links that end at the node; no node is visited; every link joins an
  output port and an input port that exist.
\<close>

definition in_port_ok :: "link list \<Rightarrow> port_ref \<Rightarrow> 'f port \<Rightarrow> bool" where
  "in_port_ok ls r q \<longleftrightarrow>
     port_link_list q = filter (\<lambda>l. link_input l = r) ls \<and>
     n_links q = of_nat (length (port_link_list q)) \<and> length (port_link_list q) \<le> 1"

definition out_port_ok :: "link list \<Rightarrow> port_ref \<Rightarrow> 'f port \<Rightarrow> bool" where
  "out_port_ok ls r q \<longleftrightarrow>
     port_link_list q = filter (\<lambda>l. link_output l = r) ls \<and>
     n_links q = of_nat (length (port_link_list q))"

definition node_ok :: "link list \<Rightarrow> nat \<Rightarrow> 'f node \<Rightarrow> bool" where
  "node_ok ls k nd \<longleftrightarrow>
     n_deps nd = of_nat (length (filter (\<lambda>l. fst (link_input l) = k) ls)) \<and> \<not> visited nd \<and>
     (\<forall>i<length (input_port nd). in_port_ok ls (k, i) (input_port nd ! i)) \<and>
     (\<forall>i<length (output_port nd). out_port_ok ls (k, i) (output_port nd ! i))"

definition link_ok :: "'f node list \<Rightarrow> link \<Rightarrow> bool" where
  "link_ok nl l \<longleftrightarrow>
     fst (link_input l) < length nl \<and>
     snd (link_input l) < length (input_port (nl ! fst (link_input l))) \<and>
     fst (link_output l) < length nl \<and>
     snd (link_output l) < length (output_port (nl ! fst (link_output l)))"

definition graph_ok :: "'f graph \<Rightarrow> bool" where
  "graph_ok g \<longleftrightarrow>
     (\<forall>k<length (node_list g). node_ok (link_list g) k (node_list g ! k)) \<and>
     (\<forall>l\<in>set (link_list g). link_ok (node_list g) l)"

section \<open>Control plane: set_control_value, parse_params, get_props_param\<close>

text \<open>
  C \<^verbatim>\<open>float\<close> arithmetic is not modelled: a control value is a value of the type
  \<open>'f\<close>, a \<^verbatim>\<open>double\<close> a value of \<open>'d\<close>, and the float operations the code uses
  are the fields of a record the functions take as a parameter:
  \<open>f_eq\<close> is C's \<^verbatim>\<open>==\<close> on floats (not reflexive on a NaN), \<open>f_le_zero x\<close> is
  \<^verbatim>\<open>x <= 0.0\<close>, \<open>f_of_double\<close>, \<open>f_of_int\<close> and \<open>f_to_int\<close> are the conversions,
  \<open>f_one\<close> and \<open>f_zero\<close> the constants \<^verbatim>\<open>1.0f\<close> and \<^verbatim>\<open>0.0f\<close>.
\<close>

record ('f, 'd) float_ops =
  f_eq :: "'f \<Rightarrow> 'f \<Rightarrow> bool"
  f_le_zero :: "'f \<Rightarrow> bool"
  f_of_double :: "'d \<Rightarrow> 'f"
  f_of_int :: "int \<Rightarrow> 'f"
  f_to_int :: "'f \<Rightarrow> int"
  f_one :: 'f
  f_zero :: 'f

text \<open>
  An \<^verbatim>\<open>spa_pod\<close>: the types the parser of \<^verbatim>\<open>parse_params\<close> tells apart
  (\<open>Pod_Int\<close> carries the value of an \<^verbatim>\<open>int32_t\<close>), and \<open>Pod_Other\<close> for the rest.
\<close>

datatype ('f, 'd) spa_pod =
    Pod_String string
  | Pod_Float 'f
  | Pod_Double 'd
  | Pod_Int int
  | Pod_Bool bool
  | Pod_Struct "('f, 'd) spa_pod list"
  | Pod_Other

text \<open>
  \<^verbatim>\<open>set_control_value(node, name, value)\<close>: \<open>None\<close> is the NULL value pointer. The
  result is the return value and the graph.
\<close>

definition set_control_value ::
  "('f, 'd) float_ops \<Rightarrow> (string \<Rightarrow> u32 option) \<Rightarrow> 'f graph \<Rightarrow> nat \<Rightarrow> string \<Rightarrow> 'f option
     \<Rightarrow> int \<times> 'f graph" where
  "set_control_value ops atou32 g node nm val =
     (case find_port atou32 g node nm {FC_PORT_INPUT, FC_PORT_CONTROL} of
        None \<Rightarrow> (0, g)
      | Some r \<Rightarrow>
         (let port = get_control_port g r;
              old = control_data port;
              new = (case val of
                       Some v \<Rightarrow> v
                     | None \<Rightarrow> default_control (desc (node_list g ! fst r)) ! idx port)
          in (if f_eq ops old new then 0 else 1,
              upd_control_port r (\<lambda>q. q\<lparr>control_data := new\<rparr>) g)))"

text \<open>
  The value the loop of \<^verbatim>\<open>parse_params\<close> reads after a name: the chain
  \<^verbatim>\<open>get_float\<close>, \<^verbatim>\<open>get_double\<close>, \<^verbatim>\<open>get_int\<close>, \<^verbatim>\<open>get_bool\<close>; every other pod
  is skipped by \<^verbatim>\<open>get_pod\<close> and leaves \<^verbatim>\<open>val\<close> NULL.
\<close>

fun parse_params_value :: "('f, 'd) float_ops \<Rightarrow> ('f, 'd) spa_pod \<Rightarrow> 'f option" where
  "parse_params_value ops (Pod_Float x) = Some x"
| "parse_params_value ops (Pod_Double d) = Some (f_of_double ops d)"
| "parse_params_value ops (Pod_Int i) = Some (f_of_int ops i)"
| "parse_params_value ops (Pod_Bool b) = Some (if b then f_one ops else f_zero ops)"
| "parse_params_value ops v = None"

text \<open>
  The \<^verbatim>\<open>while (true)\<close> loop of \<^verbatim>\<open>parse_params\<close> over the pods of the struct. It
  ends at the first pod that is not a string where a name is due. A name that is the
  last pod has no value: every getter fails and \<^verbatim>\<open>val\<close> stays NULL. The default
  node is the first node of the graph; with an empty node list the C code reads it
  through the list head, which is undefined: \<open>None\<close>.
\<close>

fun parse_params_loop ::
  "('f, 'd) float_ops \<Rightarrow> (string \<Rightarrow> u32 option) \<Rightarrow> ('f, 'd) spa_pod list \<Rightarrow> int \<Rightarrow> 'f graph
     \<Rightarrow> (int \<times> 'f graph) option" where
  "parse_params_loop ops atou32 [] changed g = Some (changed, g)"
| "parse_params_loop ops atou32 [Pod_String nm] changed g =
     (if node_list g = [] then None
      else (let res = set_control_value ops atou32 g 0 nm None
            in Some (changed + fst res, snd res)))"
| "parse_params_loop ops atou32 (Pod_String nm # v # pods) changed g =
     (if node_list g = [] then None
      else (let res = set_control_value ops atou32 g 0 nm (parse_params_value ops v)
            in parse_params_loop ops atou32 pods (changed + fst res) (snd res)))"
| "parse_params_loop ops atou32 (v # pods) changed g = Some (changed, g)"

definition parse_params ::
  "('f, 'd) float_ops \<Rightarrow> (string \<Rightarrow> u32 option) \<Rightarrow> 'f graph \<Rightarrow> ('f, 'd) spa_pod
     \<Rightarrow> (int \<times> 'f graph) option" where
  "parse_params ops atou32 g pod =
     (case pod of
        Pod_Struct pods \<Rightarrow> parse_params_loop ops atou32 pods 0 g
      | _ \<Rightarrow> Some (0, g))"

text \<open>
  \<^verbatim>\<open>get_props_param\<close>, the parameter snapshot: the pods written into the struct of
  the Props object, a name and a value for every entry of \<^verbatim>\<open>graph->control_port\<close>.
  \<^verbatim>\<open>snprintf\<close> cuts the name to the 511 characters that fit \<^verbatim>\<open>name[512]\<close>.
\<close>

definition get_props_param :: "('f, 'd) float_ops \<Rightarrow> 'f graph \<Rightarrow> ('f, 'd) spa_pod list" where
  "get_props_param ops g =
     concat (map (\<lambda>r.
       (let port = get_control_port g r;
            nd = node_list g ! fst r;
            fp = d_ports (desc nd) ! p port;
            nm = (if node_name nd \<noteq> [] then take 511 (node_name nd @ '':'' @ port_name fp)
                  else take 511 (port_name fp))
        in [Pod_String nm,
            if FC_HINT_BOOLEAN \<in> port_hint fp then Pod_Bool (\<not> f_le_zero ops (control_data port))
            else if FC_HINT_INTEGER \<in> port_hint fp then Pod_Int (f_to_int ops (control_data port))
            else Pod_Float (control_data port)]))
       (graph_control_port g))"

text \<open>
  For the proofs about parameter updates. \<open>set_control_data r v\<close> is the one write
  of \<^verbatim>\<open>set_control_value\<close>, \<^verbatim>\<open>port->control_data = v\<close>. \<open>param_value\<close> is the value
  it stores, \<open>param_write\<close> the write of one call from \<^verbatim>\<open>parse_params\<close> (none when
  the name does not resolve), \<open>param_writes\<close> and \<open>parse_params_writes\<close> the writes of
  the whole loop, \<open>changes\<close> the number of writes that replace a value by one that
  does not compare equal to it, \<open>set_all\<close> the writes done in order. \<open>same_ports\<close>
  relates two nodes that differ at most in control values, \<open>control_ref\<close> says that a
  pair points to a control port that exists.
\<close>

definition set_control_data :: "port_ref \<Rightarrow> 'f \<Rightarrow> 'f graph \<Rightarrow> 'f graph" where
  "set_control_data r v = upd_control_port r (\<lambda>q. q\<lparr>control_data := v\<rparr>)"

definition same_ports :: "'f node \<Rightarrow> 'f node \<Rightarrow> bool" where
  "same_ports n n' \<longleftrightarrow> node_name n = node_name n' \<and> desc n = desc n' \<and>
     input_port n = input_port n' \<and> output_port n = output_port n' \<and>
     notify_port n = notify_port n' \<and> map p (control_port n) = map p (control_port n') \<and>
     map idx (control_port n) = map idx (control_port n')"

definition param_value :: "'f graph \<Rightarrow> port_ref \<Rightarrow> 'f option \<Rightarrow> 'f" where
  "param_value g r val =
     (case val of
        Some v \<Rightarrow> v
      | None \<Rightarrow> default_control (desc (node_list g ! fst r)) ! idx (get_control_port g r))"

definition param_write ::
  "(string \<Rightarrow> u32 option) \<Rightarrow> 'f graph \<Rightarrow> string \<Rightarrow> 'f option \<Rightarrow> (port_ref \<times> 'f) list" where
  "param_write atou32 g nm val =
     (case find_port atou32 g 0 nm {FC_PORT_INPUT, FC_PORT_CONTROL} of
        None \<Rightarrow> []
      | Some r \<Rightarrow> [(r, param_value g r val)])"

fun param_writes ::
  "('f, 'd) float_ops \<Rightarrow> (string \<Rightarrow> u32 option) \<Rightarrow> 'f graph \<Rightarrow> ('f, 'd) spa_pod list
     \<Rightarrow> (port_ref \<times> 'f) list" where
  "param_writes ops atou32 g [] = []"
| "param_writes ops atou32 g [Pod_String nm] = param_write atou32 g nm None"
| "param_writes ops atou32 g (Pod_String nm # v # pods) =
     param_write atou32 g nm (parse_params_value ops v) @ param_writes ops atou32 g pods"
| "param_writes ops atou32 g (v # pods) = []"

fun changes :: "('f, 'd) float_ops \<Rightarrow> (port_ref \<times> 'f) list \<Rightarrow> 'f graph \<Rightarrow> int" where
  "changes ops [] g = 0"
| "changes ops ((r, v) # ws) g =
     (if f_eq ops (control_data (get_control_port g r)) v then 0 else 1) +
     changes ops ws (set_control_data r v g)"

definition set_all :: "(port_ref \<times> 'f) list \<Rightarrow> 'f graph \<Rightarrow> 'f graph" where
  "set_all ws g = fold (\<lambda>(r, v). set_control_data r v) ws g"

definition control_ref :: "'f graph \<Rightarrow> port_ref \<Rightarrow> bool" where
  "control_ref g r \<longleftrightarrow>
     fst r < length (node_list g) \<and> snd r < length (control_port (node_list g ! fst r))"

definition parse_params_writes ::
  "('f, 'd) float_ops \<Rightarrow> (string \<Rightarrow> u32 option) \<Rightarrow> 'f graph \<Rightarrow> ('f, 'd) spa_pod
     \<Rightarrow> (port_ref \<times> 'f) list" where
  "parse_params_writes ops atou32 g pod =
     (case pod of Pod_Struct pods \<Rightarrow> param_writes ops atou32 g pods | _ \<Rightarrow> [])"

section \<open>Graph executor: capture_process\<close>

text \<open>
  A \<^verbatim>\<open>pw_buffer\<close> is the list of its \<^verbatim>\<open>spa_data\<close> (\<^verbatim>\<open>n_datas\<close> is the length).
  \<open>data_ptr\<close> is the address \<^verbatim>\<open>data\<close>; sizes and offsets are \<^verbatim>\<open>uint32_t\<close>, the
  stride is the value of an \<^verbatim>\<open>int32_t\<close> (it is only compared).
\<close>

record spa_chunk =
  chunk_offset :: u32
  chunk_size :: u32
  chunk_stride :: int

record spa_data =
  data_ptr :: nat
  maxsize :: u32
  chunk :: spa_chunk

type_synonym pw_buffer = "spa_data list"

datatype stream = Capture | Playback

text \<open>
  What the executor does to the world outside the graph, in order: calls into the
  plugins (\<^verbatim>\<open>connect_port(hndl, port, address)\<close>, \<^verbatim>\<open>run(hndl, frames)\<close>),
  \<^verbatim>\<open>memset(address, 0, n)\<close>, and the stream calls \<^verbatim>\<open>pw_stream_queue_buffer\<close> and
  \<^verbatim>\<open>pw_stream_trigger_process\<close>.
\<close>

datatype call =
    Connect_port "nat \<times> nat" nat nat
  | Run "nat \<times> nat" nat
  | Memset nat nat
  | Queue_buffer stream pw_buffer
  | Trigger_process

text \<open>
  The first loop of \<^verbatim>\<open>capture_process\<close>, from data slot \<open>i\<close> on. \<open>gi\<close> is the array
  \<^verbatim>\<open>graph->input\<close>; reading it beyond its end is undefined in C: \<open>None\<close>.
  The result is the calls, \<^verbatim>\<open>outsize\<close> and \<^verbatim>\<open>stride\<close>.
\<close>

fun capture_process_in ::
  "graph_port option list \<Rightarrow> spa_data list \<Rightarrow> nat \<Rightarrow> u32 \<Rightarrow> int \<Rightarrow> (call list \<times> u32 \<times> int) option" where
  "capture_process_in gi [] i outsize stride = Some ([], outsize, stride)"
| "capture_process_in gi (ds # dss) i outsize stride =
     (if length gi \<le> i then None
      else
        (let offs = min (chunk_offset (chunk ds)) (maxsize ds);
             size = min (chunk_size (chunk ds)) (maxsize ds - offs);
             cs = (case gi ! i of
                     Some port \<Rightarrow> [Connect_port (gp_hndl port) (gp_port port) (data_ptr ds + unat offs)]
                   | None \<Rightarrow> []);
             outsize' = (if i = 0 then size else min outsize size);
             stride' = max stride (chunk_stride (chunk ds))
         in case capture_process_in gi dss (Suc i) outsize' stride' of
              None \<Rightarrow> None
            | Some (cs', res) \<Rightarrow> Some (cs @ cs', res)))"

text \<open>
  The second loop, over the data slots of the output buffer. The result is the calls,
  the final \<^verbatim>\<open>outsize\<close> and the data slots with their chunks written.
\<close>

fun capture_process_out ::
  "graph_port option list \<Rightarrow> spa_data list \<Rightarrow> nat \<Rightarrow> u32 \<Rightarrow> int
     \<Rightarrow> (call list \<times> u32 \<times> spa_data list) option" where
  "capture_process_out go [] i outsize stride = Some ([], outsize, [])"
| "capture_process_out go (dd # dds) i outsize stride =
     (if length go \<le> i then None
      else
        (let outsize' = min outsize (maxsize dd);
             cs = (case go ! i of
                     Some port \<Rightarrow> [Connect_port (gp_hndl port) (gp_port port) (data_ptr dd)]
                   | None \<Rightarrow> [Memset (data_ptr dd) (unat outsize')]);
             dd' = dd\<lparr>chunk := \<lparr>chunk_offset = 0, chunk_size = outsize', chunk_stride = stride\<rparr>\<rparr>
         in case capture_process_out go dds (Suc i) outsize' stride of
              None \<Rightarrow> None
            | Some (cs', outsize'', dds') \<Rightarrow> Some (cs @ cs', outsize'', dd' # dds')))"

text \<open>
  \<^verbatim>\<open>capture_process\<close>. \<open>inb\<close> and \<open>outb\<close> are what the two calls of
  \<^verbatim>\<open>pw_stream_dequeue_buffer\<close> return (\<open>None\<close> for NULL). The function returns
  nothing; the result is the sequence of its calls, or \<open>None\<close> where the C code reads
  beyond \<^verbatim>\<open>graph->input\<close> or \<^verbatim>\<open>graph->output\<close>. \<^verbatim>\<open>sizeof(float)\<close> is 4.
\<close>

definition capture_process ::
  "'f graph \<Rightarrow> pw_buffer option \<Rightarrow> pw_buffer option \<Rightarrow> call list option" where
  "capture_process g inb outb =
     (case (inb, outb) of
        (Some bi, Some bo) \<Rightarrow>
          (case capture_process_in (graph_input g) bi 0 0 0 of
             None \<Rightarrow> None
           | Some (cs1, outsize, stride) \<Rightarrow>
              (case capture_process_out (graph_output g) bo 0 outsize stride of
                 None \<Rightarrow> None
               | Some (cs2, outsize', bo') \<Rightarrow>
                   Some (cs1 @ cs2 @ map (\<lambda>h. Run h (unat outsize' div 4)) (graph_hndl g) @
                         [Queue_buffer Capture bi, Queue_buffer Playback bo', Trigger_process])))
      | _ \<Rightarrow>
          Some ((case inb of Some bi \<Rightarrow> [Queue_buffer Capture bi] | None \<Rightarrow> []) @
                (case outb of Some bo \<Rightarrow> [Queue_buffer Playback bo] | None \<Rightarrow> []) @
                [Trigger_process]))"





fun is_run :: "call \<Rightarrow> bool" where
  "is_run (Run h n) = True"
| "is_run c = False"

fun is_connect_port :: "call \<Rightarrow> bool" where
  "is_connect_port (Connect_port h pp a) = True"
| "is_connect_port c = False"

section \<open>Graph planner: setup_graph\<close>

text \<open>
  \<^verbatim>\<open>struct impl\<close>: the two channel counts \<^verbatim>\<open>capture_info.channels\<close> and
  \<^verbatim>\<open>playback_info.channels\<close>, which \<^verbatim>\<open>setup_graph\<close> reads and defaults.
\<close>

record impl =
  capture_channels :: u32
  playback_channels :: u32

text \<open>
  The graph's \<^verbatim>\<open>inputs\<close> and \<^verbatim>\<open>outputs\<close> arrays are \<open>None\<close> for a NULL pointer,
  otherwise the strings \<^verbatim>\<open>spa_json_get_string\<close> yields, in order. \<^verbatim>\<open>count_array\<close>
  counts them in a \<^verbatim>\<open>uint32_t\<close>.
\<close>

definition count_array :: "string list \<Rightarrow> u32" where
  "count_array vs = of_nat (length vs)"

definition setup_graph_n_input :: "'f graph \<Rightarrow> string list option \<Rightarrow> u32" where
  "setup_graph_n_input g inputs =
     (case inputs of
        Some vs \<Rightarrow> count_array vs
      | None \<Rightarrow> of_nat (length (d_input (desc (hd (node_list g))))))"

definition setup_graph_n_output :: "'f graph \<Rightarrow> string list option \<Rightarrow> u32" where
  "setup_graph_n_output g outputs =
     (case outputs of
        Some vs \<Rightarrow> count_array vs
      | None \<Rightarrow> of_nat (length (d_output (desc (last (node_list g))))))"

text \<open>
  Lines 1677-1720 of \<^verbatim>\<open>setup_graph\<close>: the checks on the counts, the defaults of the
  channel counts, and the number of instances \<^verbatim>\<open>n_hndl\<close>. All values are
  \<^verbatim>\<open>uint32_t\<close>; the division is C's unsigned division (the divisors are not 0 here).
\<close>

definition setup_graph_n_hndl :: "impl \<Rightarrow> u32 \<Rightarrow> u32 \<Rightarrow> error + (impl \<times> u32)" where
  "setup_graph_n_hndl im n_input n_output =
     (if n_input = 0 then Inl EINVAL
      else if n_output = 0 then Inl EINVAL
      else
        (let im1 = (if capture_channels im = 0 then im\<lparr>capture_channels := n_input\<rparr> else im);
             im2 = (if playback_channels im1 = 0 then im1\<lparr>playback_channels := n_output\<rparr> else im1);
             n = capture_channels im2 div n_input
         in if n \<noteq> playback_channels im2 div n_output then Inl EINVAL
            else if n > MAX_HNDL then Inl EINVAL
            else Inr (im2, if n = 0 then 1 else n)))"

text \<open>
  Lines 1722-1763: every node gets \<open>n\<close> instances. The first \<^verbatim>\<open>instantiate\<close> that
  returns NULL ends planning with \<^verbatim>\<open>-errno\<close>. The calls \<^verbatim>\<open>connect_port\<close> and
  \<^verbatim>\<open>activate\<close> made here, and in \<^verbatim>\<open>setup_input_port\<close> and
  \<^verbatim>\<open>setup_output_port\<close> below, act on the plugin instance alone and write nothing
  to the graph; the plugin's state is not part of this model of the planner.
\<close>

fun instantiate_all :: "(nat \<Rightarrow> error option) \<Rightarrow> nat list \<Rightarrow> error option" where
  "instantiate_all inst [] = None"
| "instantiate_all inst (i # is) =
     (case inst i of Some e \<Rightarrow> Some e | None \<Rightarrow> instantiate_all inst is)"

fun setup_graph_instances :: "nat \<Rightarrow> 'f node list \<Rightarrow> error + 'f node list" where
  "setup_graph_instances n [] = Inr []"
| "setup_graph_instances n (nd # nds) =
     (case instantiate_all (d_instantiate (desc nd)) [0..<n] of
        Some e \<Rightarrow> Inl e
      | None \<Rightarrow>
         (case setup_graph_instances n nds of
            Inl e \<Rightarrow> Inl e
          | Inr nds' \<Rightarrow> Inr (nd\<lparr>n_hndl := n\<rparr> # nds')))"

text \<open>
  Lines 1778-1875, for one instance \<open>i\<close>: the graph's input ports, then its output
  ports. Without an \<^verbatim>\<open>inputs\<close> array they are the audio inputs of the first node;
  with one, each string is \<^verbatim>\<open>"null"\<close> or names a port, looked up from the first node.
\<close>

fun setup_graph_inputs ::
  "(string \<Rightarrow> u32 option) \<Rightarrow> nat \<Rightarrow> string list \<Rightarrow> 'f graph \<Rightarrow> error + 'f graph" where
  "setup_graph_inputs atou32 i [] g = Inr g"
| "setup_graph_inputs atou32 i (v # vs) g =
     (if v = ''null'' then
        setup_graph_inputs atou32 i vs (g\<lparr>graph_input := graph_input g @ [None]\<rparr>)
      else case find_port atou32 g 0 v {FC_PORT_INPUT} of
        None \<Rightarrow> Inl ENOENT
      | Some r \<Rightarrow>
         (let port = get_input_port g r in
          if i = 0 \<and> external port \<noteq> SPA_ID_INVALID then Inl EBUSY
          else if n_links port > 0 then Inl EBUSY
          else
            (let g1 = upd_input_port r
                        (\<lambda>q. q\<lparr>external := of_nat (length (graph_input g))\<rparr>) g
             in setup_graph_inputs atou32 i vs
                  (g1\<lparr>graph_input := graph_input g1 @
                         [Some \<lparr>gp_hndl = (fst r, i), gp_port = p port\<rparr>]\<rparr>))))"

fun setup_graph_outputs ::
  "(string \<Rightarrow> u32 option) \<Rightarrow> nat \<Rightarrow> string list \<Rightarrow> 'f graph \<Rightarrow> error + 'f graph" where
  "setup_graph_outputs atou32 i [] g = Inr g"
| "setup_graph_outputs atou32 i (v # vs) g =
     (if v = ''null'' then
        setup_graph_outputs atou32 i vs (g\<lparr>graph_output := graph_output g @ [None]\<rparr>)
      else case find_port atou32 g (length (node_list g) - 1) v {FC_PORT_OUTPUT} of
        None \<Rightarrow> Inl ENOENT
      | Some r \<Rightarrow>
         (let port = get_output_port g r in
          if i = 0 \<and> external port \<noteq> SPA_ID_INVALID then Inl EBUSY
          else if n_links port > 0 then Inl EBUSY
          else
            (let g1 = upd_output_port r
                        (\<lambda>q. q\<lparr>external := of_nat (length (graph_output g))\<rparr>) g
             in setup_graph_outputs atou32 i vs
                  (g1\<lparr>graph_output := graph_output g1 @
                         [Some \<lparr>gp_hndl = (fst r, i), gp_port = p port\<rparr>]\<rparr>))))"

definition setup_graph_ports_inst ::
  "(string \<Rightarrow> u32 option) \<Rightarrow> string list option \<Rightarrow> string list option \<Rightarrow> nat \<Rightarrow> 'f graph
     \<Rightarrow> error + 'f graph" where
  "setup_graph_ports_inst atou32 inputs outputs i g =
     (case (case inputs of
              None \<Rightarrow>
                Inr (g\<lparr>graph_input := graph_input g @
                          map (\<lambda>pp. Some \<lparr>gp_hndl = (0, i), gp_port = pp\<rparr>)
                            (d_input (desc (hd (node_list g))))\<rparr>)
            | Some vs \<Rightarrow> setup_graph_inputs atou32 i vs g) of
        Inl e \<Rightarrow> Inl e
      | Inr g1 \<Rightarrow>
         (case outputs of
            None \<Rightarrow>
              Inr (g1\<lparr>graph_output := graph_output g1 @
                         map (\<lambda>pp. Some \<lparr>gp_hndl = (length (node_list g1) - 1, i), gp_port = pp\<rparr>)
                           (d_output (desc (last (node_list g1))))\<rparr>)
          | Some vs \<Rightarrow> setup_graph_outputs atou32 i vs g1))"

fun setup_graph_ports ::
  "(string \<Rightarrow> u32 option) \<Rightarrow> string list option \<Rightarrow> string list option \<Rightarrow> nat list \<Rightarrow> 'f graph
     \<Rightarrow> error + 'f graph" where
  "setup_graph_ports atou32 inputs outputs [] g = Inr g"
| "setup_graph_ports atou32 inputs outputs (i # is) g =
     (case setup_graph_ports_inst atou32 inputs outputs i g of
        Inl e \<Rightarrow> Inl e
      | Inr g1 \<Rightarrow> setup_graph_ports atou32 inputs outputs is g1)"

subsection \<open>The topological walk\<close>

text \<open>
  \<^verbatim>\<open>find_next_node\<close>: the first node of the list with \<^verbatim>\<open>n_deps == 0\<close> that is not
  visited; it is marked visited and returned.
\<close>

fun first_ready :: "'f node list \<Rightarrow> nat option" where
  "first_ready [] = None"
| "first_ready (nd # nds) =
     (if n_deps nd = 0 \<and> \<not> visited nd then Some 0 else map_option Suc (first_ready nds))"

definition find_next_node :: "'f graph \<Rightarrow> (nat \<times> 'f graph) option" where
  "find_next_node g =
     (case first_ready (node_list g) of
        None \<Rightarrow> None
      | Some k \<Rightarrow> Some (k, upd_node k (\<lambda>nd. nd\<lparr>visited := True\<rparr>) g))"

text \<open>
  The inner loop of \<^verbatim>\<open>setup_output_port\<close>: the scratch buffers
  \<^verbatim>\<open>port->audio_data[i]\<close> for the instances \<open>i\<close>. An entry of \<open>audio_data\<close> is
  \<open>True\<close> once its buffer is allocated (C: the pointer is not NULL). \<open>ok i\<close> tells
  whether the \<^verbatim>\<open>calloc\<close> for instance \<open>i\<close> succeeds. The result is \<open>False\<close> when
  an allocation failed (C: \<^verbatim>\<open>return -errno\<close>), with the buffers allocated so far.
\<close>

fun alloc_audio_data :: "(nat \<Rightarrow> bool) \<Rightarrow> nat list \<Rightarrow> bool list \<Rightarrow> bool \<times> bool list" where
  "alloc_audio_data ok [] ad = (True, ad)"
| "alloc_audio_data ok (i # is) ad =
     (if ad ! i then alloc_audio_data ok is ad
      else if ok i then alloc_audio_data ok is (ad[i := True])
      else (False, ad))"

text \<open>
  \<^verbatim>\<open>setup_output_port\<close>, as a loop over the links of the port: for each link the
  buffers, then \<^verbatim>\<open>link->input->node->n_deps--\<close>. \<open>calloc_ok r i\<close> tells whether the
  allocation of the buffer of port \<open>r\<close>, instance \<open>i\<close>, succeeds (each buffer is asked
  for at most once). The result is the return value (\<open>None\<close> for 0) and the graph.
\<close>

fun setup_output_port_links ::
  "(port_ref \<Rightarrow> nat \<Rightarrow> bool) \<Rightarrow> port_ref \<Rightarrow> link list \<Rightarrow> 'f graph \<Rightarrow> error option \<times> 'f graph" where
  "setup_output_port_links calloc_ok r [] g = (None, g)"
| "setup_output_port_links calloc_ok r (l # ls) g =
     (let res = alloc_audio_data (calloc_ok r) [0..<n_hndl (node_list g ! fst r)]
                  (audio_data (get_output_port g r));
          g1 = upd_output_port r (\<lambda>q. q\<lparr>audio_data := snd res\<rparr>) g
      in if \<not> fst res then (Some ENOMEM, g1)
         else setup_output_port_links calloc_ok r ls
                (upd_node (fst (link_input l)) (\<lambda>nd. nd\<lparr>n_deps := n_deps nd - 1\<rparr>) g1))"

definition setup_output_port ::
  "(port_ref \<Rightarrow> nat \<Rightarrow> bool) \<Rightarrow> port_ref \<Rightarrow> 'f graph \<Rightarrow> error option \<times> 'f graph" where
  "setup_output_port calloc_ok r g =
     setup_output_port_links calloc_ok r (port_link_list (get_output_port g r)) g"

text \<open>
  The body of the \<^verbatim>\<open>while (true)\<close> loop of \<^verbatim>\<open>setup_graph\<close> for the node \<open>k\<close> that
  \<^verbatim>\<open>find_next_node\<close> returned: its instances are appended to \<^verbatim>\<open>graph->hndl\<close>, its
  output ports are set up (the return value of \<^verbatim>\<open>setup_output_port\<close> is dropped, as
  in the source), its control ports are appended to \<^verbatim>\<open>graph->control_port\<close>.
\<close>

definition setup_graph_visit ::
  "(port_ref \<Rightarrow> nat \<Rightarrow> bool) \<Rightarrow> nat \<Rightarrow> nat \<Rightarrow> 'f graph \<Rightarrow> 'f graph" where
  "setup_graph_visit calloc_ok n k g =
     (let g1 = g\<lparr>graph_hndl := graph_hndl g @ map (\<lambda>i. (k, i)) [0..<n]\<rparr>;
          g2 = fold (\<lambda>j h. snd (setup_output_port calloc_ok (k, j) h))
                 [0..<length (output_port (node_list g ! k))] g1
      in g2\<lparr>graph_control_port := graph_control_port g2 @
               map (\<lambda>i. (k, i)) [0..<length (control_port (node_list g ! k))]\<rparr>)"

definition unvisited :: "'f graph \<Rightarrow> nat" where
  "unvisited g = length (filter (\<lambda>nd. \<not> visited nd) (node_list g))"

lemma map_update_nth: "(map f xs)[k := f (xs ! k)] = map f xs"
  by (metis list_update_id map_update)

lemma map_visited_upd_node:
  "(\<And>nd. visited (f nd) = visited nd) \<Longrightarrow>
     map visited (node_list (upd_node k f g)) = map visited (node_list g)"
  by (simp add: upd_node_def map_update map_update_nth)

lemma map_visited_setup_output_port_links:
  "map visited (node_list (snd (setup_output_port_links c r ls g))) = map visited (node_list g)"
proof (induction ls arbitrary: g)
  case Nil
  then show ?case by simp
next
  case (Cons l ls)
  then show ?case
    by (simp add: Let_def upd_output_port_def map_visited_upd_node)
qed

lemma map_visited_fold_setup_output_port:
  "map visited (node_list (fold (\<lambda>j h. snd (setup_output_port c (k, j) h)) js g))
     = map visited (node_list g)"
  by (induction js arbitrary: g)
     (simp_all add: setup_output_port_def map_visited_setup_output_port_links)

lemma unvisited_map: "unvisited g = length (filter (\<lambda>b. \<not> b) (map visited (node_list g)))"
  by (simp add: unvisited_def filter_map comp_def)

lemma unvisited_setup_graph_visit: "unvisited (setup_graph_visit c n k g) = unvisited g"
  by (simp add: unvisited_map setup_graph_visit_def Let_def map_visited_fold_setup_output_port)

lemma first_ready_Some:
  "first_ready nds = Some k \<Longrightarrow> k < length nds \<and> n_deps (nds ! k) = 0 \<and> \<not> visited (nds ! k)"
proof (induction nds arbitrary: k)
  case Nil
  then show ?case by simp
next
  case (Cons nd nds)
  then show ?case by (auto split: if_splits)
qed

lemma filter_update_less:
  "k < length xs \<Longrightarrow> P (xs ! k) \<Longrightarrow> \<not> P y \<Longrightarrow>
     length (filter P (xs[k := y])) < length (filter P xs)"
proof (induction xs arbitrary: k)
  case Nil
  then show ?case by simp
next
  case (Cons x xs)
  show ?case
  proof (cases k)
    case 0
    with Cons.prems show ?thesis by (simp add: less_Suc_eq_le)
  next
    case (Suc j)
    with Cons.prems have "j < length xs" and "P (xs ! j)" by simp_all
    then have "length (filter P (xs[j := y])) < length (filter P xs)"
      using Cons.prems(3) by (rule Cons.IH)
    with Suc show ?thesis by simp
  qed
qed

lemma unvisited_find_next_node:
  "find_next_node g = Some (k, g1) \<Longrightarrow> unvisited g1 < unvisited g"
  by (auto simp: find_next_node_def unvisited_def upd_node_def
           split: option.splits dest!: first_ready_Some intro!: filter_update_less)

function setup_graph_order ::
  "(port_ref \<Rightarrow> nat \<Rightarrow> bool) \<Rightarrow> nat \<Rightarrow> 'f graph \<Rightarrow> 'f graph" where
  "setup_graph_order calloc_ok n g =
     (case find_next_node g of
        None \<Rightarrow> g
      | Some (k, g1) \<Rightarrow> setup_graph_order calloc_ok n (setup_graph_visit calloc_ok n k g1))"
  by pat_completeness auto
termination
  by (relation "measure (\<lambda>(c, n, g). unvisited g)")
     (auto simp: unvisited_setup_graph_visit unvisited_find_next_node)

text \<open>
  \<^verbatim>\<open>setup_graph\<close>. With an empty node list the C code reads \<^verbatim>\<open>first\<close> and
  \<^verbatim>\<open>last\<close> through the list head: \<open>Undefined\<close>. On an error only the code is
  returned (the error path of the source releases the instances). On success the
  result is the updated \<^verbatim>\<open>impl\<close> and graph.
\<close>

definition setup_graph ::
  "(string \<Rightarrow> u32 option) \<Rightarrow> (port_ref \<Rightarrow> nat \<Rightarrow> bool) \<Rightarrow> impl \<Rightarrow> 'f graph
     \<Rightarrow> string list option \<Rightarrow> string list option \<Rightarrow> error + (impl \<times> 'f graph)" where
  "setup_graph atou32 calloc_ok im g inputs outputs =
     (if node_list g = [] then Inl Undefined
      else case setup_graph_n_hndl im (setup_graph_n_input g inputs) (setup_graph_n_output g outputs) of
        Inl e \<Rightarrow> Inl e
      | Inr (im', n) \<Rightarrow>
         (case setup_graph_instances (unat n) (node_list g) of
            Inl e \<Rightarrow> Inl e
          | Inr nds \<Rightarrow>
             (case setup_graph_ports atou32 inputs outputs [0..<unat n]
                     (g\<lparr>node_list := nds, graph_input := [], graph_output := []\<rparr>) of
                Inl e \<Rightarrow> Inl e
              | Inr g3 \<Rightarrow>
                  Inr (im', setup_graph_order calloc_ok (unat n)
                              (g3\<lparr>graph_hndl := [], graph_control_port := []\<rparr>)))))"

section \<open>Graphs to run the functions on\<close>

text \<open>
  A descriptor with the ports of the builtin \<^verbatim>\<open>copy\<close>: plugin port 0 is the audio
  output "Out", port 1 the audio input "In"; its \<^verbatim>\<open>instantiate\<close> succeeds.
\<close>

definition copy_desc :: "real descriptor" where
  "copy_desc =
     \<lparr>d_ports = [\<lparr>port_name = ''Out'', port_hint = {}\<rparr>, \<lparr>port_name = ''In'', port_hint = {}\<rparr>],
      d_instantiate = (\<lambda>i. None), d_input = [1], d_output = [0], d_control = [], d_notify = [],
      default_control = []\<rparr>"

text \<open>
  \<^verbatim>\<open>spa_atou32\<close> on strings that are no numbers (the port names used below):
  it returns false.
\<close>

definition no_number :: "string \<Rightarrow> u32 option" where
  "no_number s = None"

definition two_copies :: "real graph" where
  "two_copies = load_node 0 ''b'' copy_desc (load_node 0 ''a'' copy_desc graph_init)"

text \<open>The chain a:Out -> b:In.\<close>

definition chain_graph :: "real graph" where
  "chain_graph =
     snd (parse_link no_number True two_copies
            [(''output'', JString ''a:Out''), (''input'', JString ''b:In'')])"

text \<open>
  The chain planned for one capture channel and two playback channels, the second
  output being \<^verbatim>\<open>"null"\<close>; and buffers for one period.
\<close>

definition planned_chain :: "real graph" where
  "planned_chain =
     snd (projr (setup_graph no_number (\<lambda>r i. True) \<lparr>capture_channels = 1, playback_channels = 2\<rparr>
                   chain_graph None (Some [''b:Out'', ''null''])))"

definition capture_buffer :: pw_buffer where
  "capture_buffer =
     [\<lparr>data_ptr = 1000, maxsize = 4096,
       chunk = \<lparr>chunk_offset = 0, chunk_size = 1024, chunk_stride = 4\<rparr>\<rparr>]"

definition playback_buffer :: pw_buffer where
  "playback_buffer =
     [\<lparr>data_ptr = 2000, maxsize = 512,
       chunk = \<lparr>chunk_offset = 0, chunk_size = 0, chunk_stride = 0\<rparr>\<rparr>,
      \<lparr>data_ptr = 3000, maxsize = 4096,
       chunk = \<lparr>chunk_offset = 0, chunk_size = 0, chunk_stride = 0\<rparr>\<rparr>]"

text \<open>
  A node with one audio input, one audio output and the control "Gain 1" with default
  1.0 (the first channel of the builtin \<^verbatim>\<open>mixer\<close>), planned for one channel each way.
  \<open>exact_ops\<close> are the float operations on numbers that a \<^verbatim>\<open>float\<close> represents
  exactly (the only ones used below), where they are those of the reals; C's conversion
  to \<^verbatim>\<open>int\<close> truncates.
\<close>

definition gain_desc :: "real descriptor" where
  "gain_desc =
     \<lparr>d_ports = [\<lparr>port_name = ''Out'', port_hint = {}\<rparr>, \<lparr>port_name = ''In 1'', port_hint = {}\<rparr>,
                 \<lparr>port_name = ''Gain 1'', port_hint = {}\<rparr>],
      d_instantiate = (\<lambda>i. None), d_input = [1], d_output = [0], d_control = [2], d_notify = [],
      default_control = [1]\<rparr>"

definition exact_ops :: "(real, real) float_ops" where
  "exact_ops =
     \<lparr>f_eq = (=), f_le_zero = (\<lambda>x. x \<le> 0), f_of_double = (\<lambda>x. x), f_of_int = real_of_int,
      f_to_int = (\<lambda>x. if 0 \<le> x then \<lfloor>x\<rfloor> else \<lceil>x\<rceil>), f_one = 1, f_zero = 0\<rparr>"

definition planned_gain :: "real graph" where
  "planned_gain =
     snd (projr (setup_graph no_number (\<lambda>r i. True) \<lparr>capture_channels = 1, playback_channels = 1\<rparr>
                   (load_node 0 ''mix'' gain_desc graph_init) None None))"

definition two_gains :: "(real, real) spa_pod" where
  "two_gains = Pod_Struct [Pod_String ''Gain 1'', Pod_Float 1, Pod_String ''mix:Gain 1'', Pod_Float 2]"

definition quarter_gain :: "(real, real) spa_pod" where
  "quarter_gain = Pod_Struct [Pod_String ''mix:Gain 1'', Pod_Float (1 / 4)]"


definition quarter_graph :: "real graph" where
  "quarter_graph = snd (the (parse_params exact_ops no_number planned_gain quarter_gain))"

section \<open>The number of instances\<close>







lemma chain_graph_nodes: "node_list chain_graph \<noteq> []"
  by code_simp





section \<open>The executor\<close>






text \<open>
  C4. When the dequeue of the input buffer or of the output buffer returns none,
  \<^verbatim>\<open>capture_process\<close> makes exactly these calls: it queues back the buffer it did
  get, if any, and triggers the playback stream. No \<^verbatim>\<open>run\<close> and no
  \<^verbatim>\<open>connect_port\<close> is among them. The function has no return value, and it reads
  nothing out of range on this path (the result is not \<open>None\<close>).
\<close>

theorem C4_skipped_period:
  assumes "inb = None \<or> outb = None"
  shows "\<exists>cs. capture_process g inb outb = Some cs
    \<and> cs = (case inb of Some bi \<Rightarrow> [Queue_buffer Capture bi] | None \<Rightarrow> []) @
           (case outb of Some bo \<Rightarrow> [Queue_buffer Playback bo] | None \<Rightarrow> []) @
           [Trigger_process]
    \<and> (\<forall>c\<in>set cs. \<not> is_run c \<and> \<not> is_connect_port c)"
  using assms by (auto simp: capture_process_def split: option.splits)

theorem C4_skipped_period_witness:
  "capture_process planned_chain None (Some playback_buffer)
     = Some [Queue_buffer Playback playback_buffer, Trigger_process]
   \<and> capture_process planned_chain (Some capture_buffer) None
     = Some [Queue_buffer Capture capture_buffer, Trigger_process]"
  using C4_skipped_period [of None "Some playback_buffer" planned_chain]
    C4_skipped_period [of "Some capture_buffer" None planned_chain]
  by simp



section \<open>The builder\<close>

lemma node_list_upd_node [simp]:
  "node_list (upd_node k f g) = (node_list g)[k := f (node_list g ! k)]"
  by (simp add: upd_node_def)

lemma link_list_upd_node [simp]: "link_list (upd_node k f g) = link_list g"
  by (simp add: upd_node_def)

lemma link_list_upd_port [simp]:
  "link_list (upd_input_port r f g) = link_list g"
  "link_list (upd_output_port r f g) = link_list g"
  "link_list (upd_control_port r f g) = link_list g"
  by (simp_all add: upd_input_port_def upd_output_port_def upd_control_port_def)

lemma in_port_ok_append:
  "in_port_ok ls r q \<Longrightarrow> link_input l \<noteq> r \<Longrightarrow> in_port_ok (ls @ [l]) r q"
  by (auto simp: in_port_ok_def)

lemma out_port_ok_append:
  "out_port_ok ls r q \<Longrightarrow> link_output l \<noteq> r \<Longrightarrow> out_port_ok (ls @ [l]) r q"
  by (auto simp: out_port_ok_def)

lemma in_port_ok_new:
  "in_port_ok ls r q \<Longrightarrow> n_links q = 0 \<Longrightarrow> link_input l = r \<Longrightarrow>
     in_port_ok (ls @ [l]) r (q\<lparr>port_link_list := port_link_list q @ [l], n_links := n_links q + 1\<rparr>)"
  by (cases "port_link_list q") (auto simp: in_port_ok_def)

lemma out_port_ok_new:
  "out_port_ok ls r q \<Longrightarrow> link_output l = r \<Longrightarrow>
     out_port_ok (ls @ [l]) r (q\<lparr>port_link_list := port_link_list q @ [l], n_links := n_links q + 1\<rparr>)"
  by (auto simp: out_port_ok_def)

lemma graph_ok_link_add_aux:
  assumes ok: "graph_ok g"
    and ro: "a < length (node_list g)" "ia < length (output_port (node_list g ! a))"
    and ri: "b < length (node_list g)" "ib < length (input_port (node_list g ! b))"
    and free: "n_links (get_input_port g (b, ib)) = 0"
    and l: "l = \<lparr>link_output = (a, ia), link_input = (b, ib)\<rparr>"
    and F: "F = (\<lambda>q. q\<lparr>port_link_list := port_link_list q @ [l], n_links := n_links q + 1\<rparr>)"
    and g': "g' = (upd_node b (\<lambda>n. n\<lparr>n_deps := n_deps n + 1\<rparr>)
            (upd_input_port (b, ib) F (upd_output_port (a, ia) F g)))\<lparr>link_list := link_list g @ [l]\<rparr>"
  shows "graph_ok g'"
proof -
  let ?nl = "node_list g"
  have nodes: "\<And>k. k < length ?nl \<Longrightarrow> node_ok (link_list g) k (?nl ! k)"
    and links: "\<And>l. l \<in> set (link_list g) \<Longrightarrow> link_ok ?nl l"
    using ok by (simp_all add: graph_ok_def)
  have len: "length (node_list g') = length ?nl"
    by (simp add: g' upd_input_port_def upd_output_port_def)
  have ll: "link_list g' = link_list g @ [l]"
    by (simp add: g')
  have deps: "n_deps (node_list g' ! k) = (if k = b then n_deps (?nl ! k) + 1 else n_deps (?nl ! k))"
    and vis: "visited (node_list g' ! k) = visited (?nl ! k)"
    and inp: "input_port (node_list g' ! k) =
        (if k = b then (input_port (?nl ! k))[ib := F (input_port (?nl ! k) ! ib)]
         else input_port (?nl ! k))"
    and outp: "output_port (node_list g' ! k) =
        (if k = a then (output_port (?nl ! k))[ia := F (output_port (?nl ! k) ! ia)]
         else output_port (?nl ! k))"
    if k: "k < length ?nl" for k
    using k ro(1) ri(1)
    by (auto simp: g' upd_input_port_def upd_output_port_def nth_list_update)
  have "node_ok (link_list g') k (node_list g' ! k)" if k: "k < length ?nl" for k
  proof -
    from nodes [OF k] have
      d: "n_deps (?nl ! k) = of_nat (length (filter (\<lambda>l. fst (link_input l) = k) (link_list g)))"
      and v: "\<not> visited (?nl ! k)"
      and i: "\<And>i. i < length (input_port (?nl ! k)) \<Longrightarrow>
                in_port_ok (link_list g) (k, i) (input_port (?nl ! k) ! i)"
      and o: "\<And>i. i < length (output_port (?nl ! k)) \<Longrightarrow>
                out_port_ok (link_list g) (k, i) (output_port (?nl ! k) ! i)"
      by (simp_all add: node_ok_def)
    have 1: "n_deps (node_list g' ! k) =
        of_nat (length (filter (\<lambda>l. fst (link_input l) = k) (link_list g')))"
      using d by (auto simp: deps [OF k] ll l)
    have 2: "in_port_ok (link_list g') (k, j) (input_port (node_list g' ! k) ! j)"
      if j: "j < length (input_port (node_list g' ! k))" for j
    proof -
      from j have lenj: "j < length (input_port (?nl ! k))"
        by (simp add: inp [OF k] split: if_splits)
      have eq: "input_port (node_list g' ! k) ! j =
          (if (k, j) = (b, ib) then F (input_port (?nl ! k) ! j) else input_port (?nl ! k) ! j)"
        using lenj by (auto simp: inp [OF k] nth_list_update)
      show ?thesis
      proof (cases "(k, j) = (b, ib)")
        case True
        with free have "n_links (input_port (?nl ! k) ! j) = 0"
          by (simp add: get_input_port_def)
        with i [OF lenj] have "in_port_ok (link_list g @ [l]) (k, j) (F (input_port (?nl ! k) ! j))"
          unfolding F using True by (intro in_port_ok_new) (simp_all add: l)
        with True show ?thesis unfolding eq ll by auto
      next
        case False
        with i [OF lenj] have "in_port_ok (link_list g @ [l]) (k, j) (input_port (?nl ! k) ! j)"
          by (intro in_port_ok_append) (auto simp: l)
        with False show ?thesis unfolding eq ll by auto
      qed
    qed
    have 3: "out_port_ok (link_list g') (k, j) (output_port (node_list g' ! k) ! j)"
      if j: "j < length (output_port (node_list g' ! k))" for j
    proof -
      from j have lenj: "j < length (output_port (?nl ! k))"
        by (simp add: outp [OF k] split: if_splits)
      have eq: "output_port (node_list g' ! k) ! j =
          (if (k, j) = (a, ia) then F (output_port (?nl ! k) ! j) else output_port (?nl ! k) ! j)"
        using lenj by (auto simp: outp [OF k] nth_list_update)
      show ?thesis
      proof (cases "(k, j) = (a, ia)")
        case True
        with o [OF lenj] have "out_port_ok (link_list g @ [l]) (k, j) (F (output_port (?nl ! k) ! j))"
          unfolding F by (intro out_port_ok_new) (simp_all add: l)
        with True show ?thesis unfolding eq ll by auto
      next
        case False
        with o [OF lenj] have "out_port_ok (link_list g @ [l]) (k, j) (output_port (?nl ! k) ! j)"
          by (intro out_port_ok_append) (auto simp: l)
        with False show ?thesis unfolding eq ll by auto
      qed
    qed
    show ?thesis
      using 1 2 3 v by (simp add: node_ok_def vis [OF k])
  qed
  moreover have "link_ok (node_list g') l'" if "l' \<in> set (link_list g')" for l'
  proof (cases "l' = l")
    case True
    then show ?thesis
      using ro ri by (simp add: link_ok_def l len inp outp)
  next
    case False
    with that have "l' \<in> set (link_list g)" by (simp add: ll)
    from links [OF this] show ?thesis
      by (auto simp: link_ok_def len inp outp)
  qed
  ultimately show ?thesis
    unfolding graph_ok_def using len by simp
qed


lemma find_port_loop_bound:
  "find_port_loop dp pid pn qs i = Some j \<Longrightarrow> i \<le> j \<and> j < i + length qs"
proof (induction qs arbitrary: i)
  case Nil
  then show ?case by simp
next
  case (Cons q qs)
  show ?case
  proof (cases "of_nat i = pid \<or> port_name (dp ! p q) = pn")
    case True
    with Cons.prems show ?thesis by simp
  next
    case False
    with Cons.prems have "find_port_loop dp pid pn qs (Suc i) = Some j" by simp
    from Cons.IH [OF this] show ?thesis by simp
  qed
qed

lemma find_node_from_bound:
  "find_node_from ns nm k = Some j \<Longrightarrow> k \<le> j \<and> j < k + length ns"
proof (induction ns arbitrary: k)
  case Nil
  then show ?case by simp
next
  case (Cons n ns)
  show ?case
  proof (cases "node_name n = nm")
    case True
    with Cons.prems show ?thesis by simp
  next
    case False
    with Cons.prems have "find_node_from ns nm (Suc k) = Some j" by simp
    from Cons.IH [OF this] show ?thesis by simp
  qed
qed

lemma find_port_SomeD:
  assumes "find_port atou32 g k nm fl = Some r" and "k < length (node_list g)"
  obtains qs where "fst r < length (node_list g)"
    and "find_port_ports (node_list g ! fst r) fl = Some qs"
    and "snd r < length qs"
proof -
  from assms(1) obtain k' qs i where
    nd: "(case fst (find_port_split nm) of Some s \<Rightarrow> find_node g s | None \<Rightarrow> Some k) = Some k'"
    and qs: "find_port_ports (node_list g ! k') fl = Some qs"
    and loop: "find_port_loop (d_ports (desc (node_list g ! k')))
         (case atou32 (snd (find_port_split nm)) of Some v \<Rightarrow> v | None \<Rightarrow> SPA_ID_INVALID)
         (snd (find_port_split nm)) qs 0 = Some i"
    and r: "r = (k', i)"
    by (auto simp: find_port_def split: option.splits)
  from nd assms(2) have "k' < length (node_list g)"
    using find_node_from_bound [of "node_list g" _ 0 k']
    by (auto simp: find_node_def split: option.splits)
  moreover from find_port_loop_bound [OF loop] have "i < length qs" by simp
  ultimately show ?thesis
    using qs r by (intro that [of qs]) simp_all
qed

lemma find_port_node:
  assumes "find_port atou32 g k nm fl = Some r" and "k < length (node_list g)"
  shows "fst r < length (node_list g)"
  using assms by (rule find_port_SomeD)

lemma find_port_input:
  assumes "find_port atou32 g k nm {FC_PORT_INPUT} = Some r" and "k < length (node_list g)"
  shows "snd r < length (input_port (node_list g ! fst r))"
  using assms by (rule find_port_SomeD) (simp add: find_port_ports_def)

lemma find_port_output:
  assumes "find_port atou32 g k nm {FC_PORT_OUTPUT} = Some r" and "k < length (node_list g)"
  shows "snd r < length (output_port (node_list g ! fst r))"
  using assms by (rule find_port_SomeD) (simp add: find_port_ports_def)

lemma find_port_control:
  assumes "find_port atou32 g k nm {FC_PORT_INPUT, FC_PORT_CONTROL} = Some r"
    and "k < length (node_list g)"
  shows "snd r < length (control_port (node_list g ! fst r))"
  using assms by (rule find_port_SomeD) (simp add: find_port_ports_def)

lemma in_port_ok_zero:
  "in_port_ok ls r q \<Longrightarrow> (n_links q = 0) = (filter (\<lambda>l. link_input l = r) ls = [])"
  by (cases "filter (\<lambda>l. link_input l = r) ls") (auto simp: in_port_ok_def)

lemma parse_link_cases:
  obtains (fail) e where "parse_link atou32 calloc_ok g json = (Some e, g)"
  | (link) out inp ro ri where "node_list g \<noteq> []"
      and "parse_link_keys json ('''', '''') = Inr (out, inp)"
      and "find_port atou32 g 0 out {FC_PORT_OUTPUT} = Some ro"
      and "find_port atou32 g (length (node_list g) - 1) inp {FC_PORT_INPUT} = Some ri"
      and "n_links (get_input_port g ri) = 0"
      and "parse_link atou32 calloc_ok g json = (None, parse_link_add ro ri g)"
proof (cases "node_list g = []")
  case True
  then have "parse_link atou32 calloc_ok g json = (Some EINVAL, g)"
    by (simp add: parse_link_def)
  then show ?thesis by (rule fail)
next
  case ne: False
  show ?thesis
  proof (cases "parse_link_keys json ('''', '''')")
    case (Inl e)
    with ne have "parse_link atou32 calloc_ok g json = (Some e, g)"
      by (simp add: parse_link_def)
    then show ?thesis by (rule fail)
  next
    case (Inr oi)
    obtain out inp where oi: "oi = (out, inp)" by (cases oi)
    show ?thesis
    proof (cases "find_port atou32 g 0 out {FC_PORT_OUTPUT}")
      case None
      with ne Inr oi have "parse_link atou32 calloc_ok g json = (Some ENOENT, g)"
        by (simp add: parse_link_def)
      then show ?thesis by (rule fail)
    next
      case ro: (Some ro)
      show ?thesis
      proof (cases "find_port atou32 g (length (node_list g) - 1) inp {FC_PORT_INPUT}")
        case None
        with ne Inr oi ro have "parse_link atou32 calloc_ok g json = (Some ENOENT, g)"
          by (simp add: parse_link_def)
        then show ?thesis by (rule fail)
      next
        case ri: (Some ri)
        show ?thesis
        proof (cases "0 < n_links (get_input_port g ri)")
          case True
          with ne Inr oi ro ri have "parse_link atou32 calloc_ok g json = (Some ENOTSUP, g)"
            by (simp add: parse_link_def)
          then show ?thesis by (rule fail)
        next
          case free: False
          show ?thesis
          proof (cases calloc_ok)
            case False
            with ne Inr oi ro ri free have "parse_link atou32 calloc_ok g json = (Some ENOMEM, g)"
              by (simp add: parse_link_def)
            then show ?thesis by (rule fail)
          next
            case True
            with ne Inr oi ro ri free
            have "parse_link atou32 calloc_ok g json = (None, parse_link_add ro ri g)"
              by (simp add: parse_link_def Let_def)
            moreover from free have "n_links (get_input_port g ri) = 0"
              by (simp add: word_gt_0)
            ultimately show ?thesis
              using ne Inr oi ro ri by (intro link) simp_all
          qed
        qed
      qed
    qed
  qed
qed

lemma graph_ok_link_add:
  assumes "graph_ok g"
    and "a < length (node_list g)" "ia < length (output_port (node_list g ! a))"
    and "b < length (node_list g)" "ib < length (input_port (node_list g ! b))"
    and "n_links (get_input_port g (b, ib)) = 0"
  shows "graph_ok (parse_link_add (a, ia) (b, ib) g)"
  by (rule graph_ok_link_add_aux [OF assms refl refl]) (simp add: parse_link_add_def Let_def)

lemma graph_ok_parse_link:
  assumes "graph_ok g"
  shows "graph_ok (snd (parse_link atou32 calloc_ok g json))"
proof (cases rule: parse_link_cases [of atou32 calloc_ok g json])
  case (fail e)
  with assms show ?thesis by simp
next
  case (link out inp ro ri)
  from link(1) have k0: "0 < length (node_list g)"
    and kl: "length (node_list g) - 1 < length (node_list g)"
    by simp_all
  obtain a ia where ro_eq: "ro = (a, ia)" by (cases ro)
  obtain b ib where ri_eq: "ri = (b, ib)" by (cases ri)
  have 1: "a < length (node_list g)" "ia < length (output_port (node_list g ! a))"
    using find_port_node [OF link(3) k0] find_port_output [OF link(3) k0] by (simp_all add: ro_eq)
  have 2: "b < length (node_list g)" "ib < length (input_port (node_list g ! b))"
    using find_port_node [OF link(4) kl] find_port_input [OF link(4) kl] by (simp_all add: ri_eq)
  have 3: "n_links (get_input_port g (b, ib)) = 0"
    using link(5) by (simp add: ri_eq)
  have "graph_ok (parse_link_add ro ri g)"
    unfolding ro_eq ri_eq using assms 1 2 3 by (rule graph_ok_link_add)
  with link(6) show ?thesis by simp
qed


lemma filter_remove1_other: "\<not> P x \<Longrightarrow> filter P (remove1 x xs) = filter P xs"
  by (induction xs) auto

lemma word_of_nat_length_remove1:
  "x \<in> set xs \<Longrightarrow> (of_nat (length (remove1 x xs)) :: 'a :: len word) = of_nat (length xs) - 1"
proof -
  assume "x \<in> set xs"
  then have "length xs = Suc (length (remove1 x xs))"
    by (simp add: length_remove1) (metis length_pos_if_in_set Suc_pred)
  then show ?thesis by simp
qed

lemma in_port_ok_remove_other:
  "in_port_ok ls r q \<Longrightarrow> link_input l \<noteq> r \<Longrightarrow> in_port_ok (remove1 l ls) r q"
  by (auto simp: in_port_ok_def filter_remove1_other)

lemma out_port_ok_remove_other:
  "out_port_ok ls r q \<Longrightarrow> link_output l \<noteq> r \<Longrightarrow> out_port_ok (remove1 l ls) r q"
  by (auto simp: out_port_ok_def filter_remove1_other)

lemma in_port_ok_remove:
  assumes "in_port_ok ls r q" and "link_input l = r" and "l \<in> set ls"
  shows "in_port_ok (remove1 l ls) r
           (q\<lparr>port_link_list := remove1 l (port_link_list q), n_links := n_links q - 1\<rparr>)"
proof -
  from assms have mem: "l \<in> set (port_link_list q)"
    by (simp add: in_port_ok_def)
  have "length (remove1 l (port_link_list q)) \<le> length (port_link_list q)"
    by (simp add: length_remove1)
  with assms mem show ?thesis
    by (auto simp: in_port_ok_def filter_remove1 word_of_nat_length_remove1)
qed

lemma out_port_ok_remove:
  assumes "out_port_ok ls r q" and "link_output l = r" and "l \<in> set ls"
  shows "out_port_ok (remove1 l ls) r
           (q\<lparr>port_link_list := remove1 l (port_link_list q), n_links := n_links q - 1\<rparr>)"
proof -
  from assms have mem: "l \<in> set (port_link_list q)"
    by (simp add: out_port_ok_def)
  with assms show ?thesis
    by (simp add: out_port_ok_def filter_remove1 word_of_nat_length_remove1)
qed

lemma graph_ok_link_free:
  assumes ok: "graph_ok g" and mem: "l \<in> set (link_list g)"
  shows "graph_ok (link_free l g)"
proof -
  let ?nl = "node_list g"
  let ?g' = "link_free l g"
  let ?F = "\<lambda>q :: 'a port. q\<lparr>port_link_list := remove1 l (port_link_list q), n_links := n_links q - 1\<rparr>"
  obtain a ia where ro_eq: "link_output l = (a, ia)" by (cases "link_output l")
  obtain b ib where ri_eq: "link_input l = (b, ib)" by (cases "link_input l")
  have nodes: "\<And>k. k < length ?nl \<Longrightarrow> node_ok (link_list g) k (?nl ! k)"
    and links: "\<And>l. l \<in> set (link_list g) \<Longrightarrow> link_ok ?nl l"
    using ok by (simp_all add: graph_ok_def)
  from links [OF mem] have
    ro: "a < length ?nl" "ia < length (output_port (?nl ! a))" and
    ri: "b < length ?nl" "ib < length (input_port (?nl ! b))"
    by (simp_all add: link_ok_def ro_eq ri_eq)
  have g': "?g' = (upd_output_port (a, ia) ?F
        (upd_node b (\<lambda>n. n\<lparr>n_deps := n_deps n - 1\<rparr>)
           (upd_input_port (b, ib) ?F g)))\<lparr>link_list := remove1 l (link_list g)\<rparr>"
    by (simp add: link_free_def Let_def ro_eq ri_eq)
  have len: "length (node_list ?g') = length ?nl"
    by (simp add: g' upd_input_port_def upd_output_port_def)
  have ll: "link_list ?g' = remove1 l (link_list g)"
    by (simp add: g')
  have deps: "n_deps (node_list ?g' ! k) = (if k = b then n_deps (?nl ! k) - 1 else n_deps (?nl ! k))"
    and vis: "visited (node_list ?g' ! k) = visited (?nl ! k)"
    and inp: "input_port (node_list ?g' ! k) =
        (if k = b then (input_port (?nl ! k))[ib := ?F (input_port (?nl ! k) ! ib)]
         else input_port (?nl ! k))"
    and outp: "output_port (node_list ?g' ! k) =
        (if k = a then (output_port (?nl ! k))[ia := ?F (output_port (?nl ! k) ! ia)]
         else output_port (?nl ! k))"
    if k: "k < length ?nl" for k
    using k ro(1) ri(1)
    by (auto simp: g' upd_input_port_def upd_output_port_def nth_list_update)
  have "node_ok (link_list ?g') k (node_list ?g' ! k)" if k: "k < length ?nl" for k
  proof -
    from nodes [OF k] have
      d: "n_deps (?nl ! k) = of_nat (length (filter (\<lambda>l. fst (link_input l) = k) (link_list g)))"
      and v: "\<not> visited (?nl ! k)"
      and i: "\<And>i. i < length (input_port (?nl ! k)) \<Longrightarrow>
                in_port_ok (link_list g) (k, i) (input_port (?nl ! k) ! i)"
      and o: "\<And>i. i < length (output_port (?nl ! k)) \<Longrightarrow>
                out_port_ok (link_list g) (k, i) (output_port (?nl ! k) ! i)"
      by (simp_all add: node_ok_def)
    have 1: "n_deps (node_list ?g' ! k) =
        of_nat (length (filter (\<lambda>l. fst (link_input l) = k) (link_list ?g')))"
    proof (cases "k = b")
      case True
      with mem have "l \<in> set (filter (\<lambda>l. fst (link_input l) = k) (link_list g))"
        by (simp add: ri_eq)
      then show ?thesis
        unfolding deps [OF k] ll d using True
        by (simp add: filter_remove1 word_of_nat_length_remove1)
    next
      case False
      then show ?thesis
        unfolding deps [OF k] ll d by (simp add: filter_remove1_other ri_eq)
    qed
    have 2: "in_port_ok (link_list ?g') (k, j) (input_port (node_list ?g' ! k) ! j)"
      if j: "j < length (input_port (node_list ?g' ! k))" for j
    proof -
      from j have lenj: "j < length (input_port (?nl ! k))"
        by (simp add: inp [OF k] split: if_splits)
      have eq: "input_port (node_list ?g' ! k) ! j =
          (if (k, j) = (b, ib) then ?F (input_port (?nl ! k) ! j) else input_port (?nl ! k) ! j)"
        using lenj by (auto simp: inp [OF k] nth_list_update)
      show ?thesis
      proof (cases "(k, j) = (b, ib)")
        case True
        with i [OF lenj] mem
        have "in_port_ok (remove1 l (link_list g)) (k, j) (?F (input_port (?nl ! k) ! j))"
          by (intro in_port_ok_remove) (simp_all add: ri_eq)
        with True show ?thesis unfolding eq ll by auto
      next
        case False
        with i [OF lenj]
        have "in_port_ok (remove1 l (link_list g)) (k, j) (input_port (?nl ! k) ! j)"
          by (intro in_port_ok_remove_other) (auto simp: ri_eq)
        with False show ?thesis unfolding eq ll by auto
      qed
    qed
    have 3: "out_port_ok (link_list ?g') (k, j) (output_port (node_list ?g' ! k) ! j)"
      if j: "j < length (output_port (node_list ?g' ! k))" for j
    proof -
      from j have lenj: "j < length (output_port (?nl ! k))"
        by (simp add: outp [OF k] split: if_splits)
      have eq: "output_port (node_list ?g' ! k) ! j =
          (if (k, j) = (a, ia) then ?F (output_port (?nl ! k) ! j) else output_port (?nl ! k) ! j)"
        using lenj by (auto simp: outp [OF k] nth_list_update)
      show ?thesis
      proof (cases "(k, j) = (a, ia)")
        case True
        with o [OF lenj] mem
        have "out_port_ok (remove1 l (link_list g)) (k, j) (?F (output_port (?nl ! k) ! j))"
          by (intro out_port_ok_remove) (simp_all add: ro_eq)
        with True show ?thesis unfolding eq ll by auto
      next
        case False
        with o [OF lenj]
        have "out_port_ok (remove1 l (link_list g)) (k, j) (output_port (?nl ! k) ! j)"
          by (intro out_port_ok_remove_other) (auto simp: ro_eq)
        with False show ?thesis unfolding eq ll by auto
      qed
    qed
    show ?thesis
      using 1 2 3 v by (simp add: node_ok_def vis [OF k])
  qed
  moreover have "link_ok (node_list ?g') l'" if "l' \<in> set (link_list ?g')" for l'
  proof -
    from that have "l' \<in> set (link_list g)"
      unfolding ll by (metis notin_set_remove1)
    from links [OF this] show ?thesis
      by (auto simp: link_ok_def len inp outp)
  qed
  ultimately show ?thesis
    unfolding graph_ok_def using len by simp
qed


lemma graph_ok_init: "graph_ok graph_init"
  by (simp add: graph_ok_def graph_init_def)

lemma graph_okD:
  "graph_ok g \<Longrightarrow> k < length (node_list g) \<Longrightarrow> node_ok (link_list g) k (node_list g ! k)"
  "graph_ok g \<Longrightarrow> l \<in> set (link_list g) \<Longrightarrow> link_ok (node_list g) l"
  by (simp_all add: graph_ok_def)

lemma node_okD:
  "node_ok ls k nd \<Longrightarrow> i < length (input_port nd) \<Longrightarrow> in_port_ok ls (k, i) (input_port nd ! i)"
  "node_ok ls k nd \<Longrightarrow> i < length (output_port nd) \<Longrightarrow> out_port_ok ls (k, i) (output_port nd ! i)"
  "node_ok ls k nd \<Longrightarrow> n_deps nd = of_nat (length (filter (\<lambda>l. fst (link_input l) = k) ls))"
  "node_ok ls k nd \<Longrightarrow> \<not> visited nd"
  by (simp_all add: node_ok_def)

lemma filter_link_input_out_of_range:
  assumes "\<forall>l\<in>set ls. link_ok nl l" and "length nl \<le> k"
  shows "filter (\<lambda>l. fst (link_input l) = k) ls = []"
    and "filter (\<lambda>l. link_input l = (k, i)) ls = []"
    and "filter (\<lambda>l. link_output l = (k, i)) ls = []"
  using assms by (auto simp: filter_empty_conv link_ok_def)

lemma graph_ok_load_node:
  assumes ok: "graph_ok g"
  shows "graph_ok (load_node z nm d g)"
proof -
  let ?nl = "node_list g"
  let ?g' = "load_node z nm d g"
  have nodes: "\<And>k. k < length ?nl \<Longrightarrow> node_ok (link_list g) k (?nl ! k)"
    and links: "\<And>l. l \<in> set (link_list g) \<Longrightarrow> link_ok ?nl l"
    using ok by (simp_all add: graph_ok_def)
  have ll: "link_list ?g' = link_list g"
    by (simp add: load_node_def)
  have len: "length (node_list ?g') = Suc (length ?nl)"
    by (simp add: load_node_def)
  have old: "node_list ?g' ! k = ?nl ! k" if "k < length ?nl" for k
    using that by (simp add: load_node_def nth_append)
  have "node_ok (link_list ?g') k (node_list ?g' ! k)" if k: "k < length (node_list ?g')" for k
  proof (cases "k < length ?nl")
    case True
    with nodes [OF True] show ?thesis by (simp add: old ll)
  next
    case False
    with k len have keq: "k = length ?nl" by simp
    have "\<forall>l\<in>set (link_list g). link_ok ?nl l" "length ?nl \<le> length ?nl"
      using links by simp_all
    note empty = filter_link_input_out_of_range [OF this]
    show ?thesis
      unfolding keq ll
      by (simp add: load_node_def node_ok_def in_port_ok_def out_port_ok_def load_node_port_def empty)
  qed
  moreover have "link_ok (node_list ?g') l" if "l \<in> set (link_list ?g')" for l
    using links [of l] that by (simp add: ll link_ok_def load_node_def nth_append)
  ultimately show ?thesis
    by (simp add: graph_ok_def)
qed

lemma builder_graph_ok: "builder g \<Longrightarrow> graph_ok g"
  by (induction rule: builder.induct)
     (simp_all add: graph_ok_init graph_ok_load_node graph_ok_parse_link graph_ok_link_free)



lemma parse_link_ENOTSUP:
  assumes "node_list g \<noteq> []"
    and "parse_link_keys json ('''', '''') = Inr (out, inp)"
    and "find_port atou32 g 0 out {FC_PORT_OUTPUT} = Some ro"
    and "find_port atou32 g (length (node_list g) - 1) inp {FC_PORT_INPUT} = Some ri"
    and "0 < n_links (get_input_port g ri)"
  shows "parse_link atou32 calloc_ok g json = (Some ENOTSUP, g)"
  using assms by (simp add: parse_link_def)

lemma graph_ok_one_link:
  assumes "graph_ok g"
  shows "length (filter (\<lambda>l. link_input l = r) (link_list g)) \<le> 1"
proof (cases "fst r < length (node_list g) \<and> snd r < length (input_port (node_list g ! fst r))")
  case True
  with assms have "in_port_ok (link_list g) (fst r, snd r) (input_port (node_list g ! fst r) ! snd r)"
    by (intro node_okD graph_okD) simp_all
  then show ?thesis by (auto simp: in_port_ok_def)
next
  case False
  with assms have "filter (\<lambda>l. link_input l = r) (link_list g) = []"
    by (auto simp: filter_empty_conv graph_ok_def link_ok_def)
  then show ?thesis by simp
qed

text \<open>
  C6, as the code has it. In a graph the builder can reach, a call of
  \<^verbatim>\<open>parse_link\<close> whose two port names resolve and whose input port already has a link
  returns \<open>ENOTSUP\<close> (the source logs "Can't have more than 1 link to ..., use a
  mixer") and leaves the graph as it was; and no input port has more than one link.
\<close>

theorem C6_second_link:
  assumes "builder g" and "node_list g \<noteq> []"
    and "parse_link_keys json ('''', '''') = Inr (out, inp)"
    and "find_port atou32 g 0 out {FC_PORT_OUTPUT} = Some ro"
    and "find_port atou32 g (length (node_list g) - 1) inp {FC_PORT_INPUT} = Some ri"
    and "l \<in> set (link_list g)" and "link_input l = ri"
  shows "parse_link atou32 calloc_ok g json = (Some ENOTSUP, g)
    \<and> (\<forall>r. length (filter (\<lambda>l. link_input l = r) (link_list g)) \<le> 1)"
proof -
  from assms(1) have ok: "graph_ok g" by (rule builder_graph_ok)
  from assms(2) have kl: "length (node_list g) - 1 < length (node_list g)" by simp
  have v: "fst ri < length (node_list g)" "snd ri < length (input_port (node_list g ! fst ri))"
    using find_port_node [OF assms(5) kl] find_port_input [OF assms(5) kl] by simp_all
  with ok have "in_port_ok (link_list g) (fst ri, snd ri) (get_input_port g ri)"
    unfolding get_input_port_def by (intro node_okD graph_okD) simp_all
  moreover have "filter (\<lambda>l. link_input l = ri) (link_list g) \<noteq> []"
    using assms(6,7) by (auto simp: filter_empty_conv)
  ultimately have "n_links (get_input_port g ri) \<noteq> 0"
    by (simp add: in_port_ok_zero)
  then have "0 < n_links (get_input_port g ri)"
    by (simp add: word_gt_0)
  with assms(2-5) have "parse_link atou32 calloc_ok g json = (Some ENOTSUP, g)"
    by (rule parse_link_ENOTSUP)
  moreover have "\<forall>r. length (filter (\<lambda>l. link_input l = r) (link_list g)) \<le> 1"
    using graph_ok_one_link [OF ok] by blast
  ultimately show ?thesis by blast
qed


lemma builder_chain_graph: "builder chain_graph"
  unfolding chain_graph_def two_copies_def by (intro builder.intros)

lemma chain_graph_links:
  "link_list chain_graph = [\<lparr>link_output = (0, 0), link_input = (1, 0)\<rparr>]"
  by code_simp


lemma chain_graph_find_port:
  "find_port no_number chain_graph 0 ''a:Out'' {FC_PORT_OUTPUT} = Some (0, 0)"
  "find_port no_number chain_graph (length (node_list chain_graph) - 1) ''b:In'' {FC_PORT_INPUT}
     = Some (1, 0)"
  by code_simp+


theorem C6_second_link_witness:
  "parse_link no_number True chain_graph
     [(''output'', JString ''a:Out''), (''input'', JString ''b:In'')] = (Some ENOTSUP, chain_graph)"
proof -
  have 1: "parse_link_keys [(''output'', JString ''a:Out''), (''input'', JString ''b:In'')] ('''', '''')
      = Inr (''a:Out'', ''b:In'')"
    by simp
  have 2: "\<lparr>link_output = (0, 0), link_input = (1, 0)\<rparr> \<in> set (link_list chain_graph)"
    by (simp add: chain_graph_links)
  have 3: "link_input \<lparr>link_output = (0, 0), link_input = (1, 0)\<rparr> = (1, 0)"
    by simp
  from C6_second_link [OF builder_chain_graph chain_graph_nodes 1 chain_graph_find_port 2 3]
  show ?thesis by blast
qed

text \<open>
  The claim C6 says the second link to an input port fails with BUSY. On the chain
  a:Out -> b:In, a second link to b:In fails with \<open>ENOTSUP\<close>, not \<open>EBUSY\<close>.
\<close>

theorem C6_counterexample:
  "link_list chain_graph = [\<lparr>link_output = (0, 0), link_input = (1, 0)\<rparr>]
   \<and> fst (parse_link no_number True chain_graph
            [(''output'', JString ''a:Out''), (''input'', JString ''b:In'')]) = Some ENOTSUP
   \<and> fst (parse_link no_number True chain_graph
            [(''output'', JString ''a:Out''), (''input'', JString ''b:In'')]) \<noteq> Some EBUSY"
  by code_simp

section \<open>The control plane\<close>

lemma find_port_loop_cong:
  "map p qs = map p qs' \<Longrightarrow> find_port_loop dp pid pn qs i = find_port_loop dp pid pn qs' i"
proof (induction qs arbitrary: qs' i)
  case Nil
  then show ?case by simp
next
  case (Cons q qs)
  then obtain q' qs'' where "qs' = q' # qs''" "p q = p q'" "map p qs = map p qs''"
    by (cases qs') auto
  with Cons.IH [of qs'' "Suc i"] show ?case by simp
qed

lemma find_node_from_cong:
  "map node_name ns = map node_name ns' \<Longrightarrow> find_node_from ns nm k = find_node_from ns' nm k"
proof (induction ns arbitrary: ns' k)
  case Nil
  then show ?case by simp
next
  case (Cons n ns)
  then obtain n' ns'' where "ns' = n' # ns''" "node_name n = node_name n'"
    "map node_name ns = map node_name ns''"
    by (cases ns') auto
  with Cons.IH [of ns'' "Suc k"] show ?case by simp
qed

lemma find_port_cong:
  assumes len: "length (node_list g') = length (node_list g)"
    and same: "\<And>k. k < length (node_list g) \<Longrightarrow> same_ports (node_list g ! k) (node_list g' ! k)"
    and k0: "k0 < length (node_list g)"
  shows "find_port atou32 g' k0 nm fl = find_port atou32 g k0 nm fl"
proof -
  have names: "map node_name (node_list g') = map node_name (node_list g)"
    using len same by (auto simp: list_eq_iff_nth_eq same_ports_def)
  then have fn: "find_node g' s = find_node g s" for s
    unfolding find_node_def by (rule find_node_from_cong)
  define nd where
    "nd = (case fst (find_port_split nm) of Some s \<Rightarrow> find_node g s | None \<Rightarrow> Some k0)"
  have nd': "(case fst (find_port_split nm) of Some s \<Rightarrow> find_node g' s | None \<Rightarrow> Some k0) = nd"
    by (cases "fst (find_port_split nm)") (simp_all add: nd_def fn)
  show ?thesis
  proof (cases nd)
    case None
    then show ?thesis
      unfolding find_port_def nd' nd_def [symmetric] by simp
  next
    case (Some k)
    then have k: "k < length (node_list g)"
      using k0 find_node_from_bound [of "node_list g" _ 0 k]
      by (auto simp: nd_def find_node_def split: option.splits)
    from same [OF k] have sp: "same_ports (node_list g ! k) (node_list g' ! k)" .
    have "find_port_ports (node_list g' ! k) fl = None \<and> find_port_ports (node_list g ! k) fl = None
      \<or> (\<exists>qs qs'. find_port_ports (node_list g' ! k) fl = Some qs' \<and>
            find_port_ports (node_list g ! k) fl = Some qs \<and> map p qs = map p qs')"
      using sp by (auto simp: find_port_ports_def same_ports_def)
    then show ?thesis
    proof
      assume "find_port_ports (node_list g' ! k) fl = None \<and> find_port_ports (node_list g ! k) fl = None"
      then show ?thesis
        unfolding find_port_def nd' nd_def [symmetric] Some by simp
    next
      assume "\<exists>qs qs'. find_port_ports (node_list g' ! k) fl = Some qs' \<and>
            find_port_ports (node_list g ! k) fl = Some qs \<and> map p qs = map p qs'"
      then obtain qs qs' where "find_port_ports (node_list g' ! k) fl = Some qs'"
        "find_port_ports (node_list g ! k) fl = Some qs" "map p qs = map p qs'" by blast
      moreover from sp have "desc (node_list g' ! k) = desc (node_list g ! k)"
        by (simp add: same_ports_def)
      ultimately show ?thesis
        unfolding find_port_def nd' nd_def [symmetric] Some
        by (simp add: find_port_loop_cong [of qs qs'])
    qed
  qed
qed

lemma same_ports_refl [simp]: "same_ports n n"
  by (simp add: same_ports_def)

lemma nth_upd_node:
  "node_list (upd_node k f g) ! j =
     (if j = k \<and> k < length (node_list g) then f (node_list g ! k) else node_list g ! j)"
  by (cases "k < length (node_list g)") (auto simp: upd_node_def nth_list_update list_update_beyond)

lemma set_control_data_length [simp]:
  "length (node_list (set_control_data r v g)) = length (node_list g)"
  by (simp add: set_control_data_def upd_control_port_def)

lemma set_control_data_Nil [simp]:
  "(node_list (set_control_data r v g) = []) = (node_list g = [])"
  by (simp add: set_control_data_def upd_control_port_def)

lemma set_control_data_same_ports:
  "same_ports (node_list g ! k) (node_list (set_control_data r v g) ! k)"
  unfolding set_control_data_def upd_control_port_def
  by (simp add: nth_upd_node same_ports_def map_update map_update_nth del: node_list_upd_node)

lemma find_port_set_control_data:
  "k0 < length (node_list g) \<Longrightarrow>
     find_port atou32 (set_control_data r v g) k0 nm fl = find_port atou32 g k0 nm fl"
  by (rule find_port_cong) (simp_all add: set_control_data_same_ports)


lemma set_all_simps [simp]:
  "set_all [] g = g"
  "set_all ((r, v) # ws) g = set_all ws (set_control_data r v g)"
  "set_all (ws @ ws') g = set_all ws' (set_all ws g)"
  by (simp_all add: set_all_def)

lemma changes_append:
  "changes ops (ws @ ws') g = changes ops ws g + changes ops ws' (set_all ws g)"
  by (induction ws arbitrary: g) auto

lemma set_control_value_eq:
  "set_control_value ops atou32 g k nm val =
     (case find_port atou32 g k nm {FC_PORT_INPUT, FC_PORT_CONTROL} of
        None \<Rightarrow> (0, g)
      | Some r \<Rightarrow>
          (if f_eq ops (control_data (get_control_port g r)) (param_value g r val) then 0 else 1,
           set_control_data r (param_value g r val) g))"
  by (simp add: set_control_value_def param_value_def set_control_data_def Let_def
           split: option.splits)

lemma set_control_value_writes:
  "set_control_value ops atou32 g 0 nm val =
     (changes ops (param_write atou32 g nm val) g, set_all (param_write atou32 g nm val) g)"
  by (simp add: set_control_value_eq param_write_def split: option.splits)

lemma get_control_port_set_control_data:
  "idx (get_control_port (set_control_data r' v g) r) = idx (get_control_port g r)"
  "p (get_control_port (set_control_data r' v g) r) = p (get_control_port g r)"
  unfolding set_control_data_def upd_control_port_def get_control_port_def
  by (cases "snd r' < length (control_port (node_list g ! fst r'))";
      simp add: nth_upd_node nth_list_update list_update_beyond del: node_list_upd_node)+

lemma desc_set_control_data:
  "desc (node_list (set_control_data r' v g) ! k) = desc (node_list g ! k)"
  using set_control_data_same_ports [of g k r' v] by (simp add: same_ports_def)

lemma param_value_set_control_data:
  "param_value (set_control_data r' v g) r val = param_value g r val"
  by (simp add: param_value_def get_control_port_set_control_data desc_set_control_data
           split: option.splits)

lemma param_write_set_control_data:
  "node_list g \<noteq> [] \<Longrightarrow>
     param_write atou32 (set_control_data r' v g) nm val = param_write atou32 g nm val"
  by (simp add: param_write_def find_port_set_control_data param_value_set_control_data
           cong: option.case_cong)

lemma param_writes_set_control_data:
  "node_list g \<noteq> [] \<Longrightarrow>
     param_writes ops atou32 (set_control_data r' v g) pods = param_writes ops atou32 g pods"
  by (induction ops atou32 g pods rule: param_writes.induct)
     (simp_all add: param_write_set_control_data)

lemma set_all_Nil [simp]: "(node_list (set_all ws g) = []) = (node_list g = [])"
proof (induction ws arbitrary: g)
  case Nil
  show ?case by simp
next
  case (Cons w ws)
  obtain r v where "w = (r, v)" by (cases w)
  then show ?case by (simp add: Cons.IH)
qed

lemma param_writes_set_all:
  "node_list g \<noteq> [] \<Longrightarrow>
     param_writes ops atou32 (set_all ws g) pods = param_writes ops atou32 g pods"
proof (induction ws arbitrary: g)
  case Nil
  show ?case by simp
next
  case (Cons w ws)
  obtain r v where w: "w = (r, v)" by (cases w)
  from Cons.prems have "node_list (set_control_data r v g) \<noteq> []" by simp
  from Cons.IH [OF this] Cons.prems show ?case
    by (simp add: w param_writes_set_control_data)
qed

lemma parse_params_loop_eq:
  "node_list g \<noteq> [] \<Longrightarrow>
     parse_params_loop ops atou32 pods c g =
       Some (c + changes ops (param_writes ops atou32 g pods) g,
             set_all (param_writes ops atou32 g pods) g)"
proof (induction ops atou32 pods c g rule: parse_params_loop.induct)
  case (1 ops atou32 changed g)
  then show ?case by simp
next
  case (2 ops atou32 nm changed g)
  then show ?case by (simp add: set_control_value_writes)
next
  case (3 ops atou32 nm v pods changed g)
  let ?w = "param_write atou32 g nm (parse_params_value ops v)"
  define x where "x = set_control_value ops atou32 g 0 nm (parse_params_value ops v)"
  have x: "fst x = changes ops ?w g" "snd x = set_all ?w g"
    by (simp_all add: x_def set_control_value_writes)
  have ne: "node_list (snd x) \<noteq> []"
    using "3.prems" by (simp add: x)
  from "3.prems" have "\<not> node_list g = []" by simp
  from "3.IH" [OF this x_def ne]
  have "parse_params_loop ops atou32 pods (changed + fst x) (snd x) =
      Some (changed + fst x + changes ops (param_writes ops atou32 (snd x) pods) (snd x),
            set_all (param_writes ops atou32 (snd x) pods) (snd x))" .
  then have "parse_params_loop ops atou32 pods (changed + fst x) (snd x) =
      Some (changed + changes ops ?w g + changes ops (param_writes ops atou32 g pods) (set_all ?w g),
            set_all (param_writes ops atou32 g pods) (set_all ?w g))"
    using "3.prems" by (simp add: x param_writes_set_all)
  then show ?case
    using "3.prems" by (simp add: x_def [symmetric] Let_def changes_append x)
qed simp_all


lemma upd_node_twice: "upd_node k f (upd_node k f' g) = upd_node k (\<lambda>n. f (f' n)) g"
  by (cases "k < length (node_list g)") (simp_all add: upd_node_def list_update_beyond)

lemma upd_node_swap:
  "k \<noteq> k' \<Longrightarrow> upd_node k f (upd_node k' f' g) = upd_node k' f' (upd_node k f g)"
  by (simp add: upd_node_def list_update_swap)

lemma upd_node_cong:
  "(k < length (node_list g) \<Longrightarrow> f (node_list g ! k) = f' (node_list g ! k)) \<Longrightarrow>
     upd_node k f g = upd_node k f' g"
  by (cases "k < length (node_list g)") (simp_all add: upd_node_def list_update_beyond)

lemma set_control_data_absorb:
  "set_control_data r v (set_control_data r v' g) = set_control_data r v g"
  unfolding set_control_data_def upd_control_port_def upd_node_twice
  by (rule upd_node_cong)
     (cases "snd r < length (control_port (node_list g ! fst r))"; simp add: list_update_beyond)

lemma set_control_data_swap:
  assumes "r \<noteq> r'"
  shows "set_control_data r v (set_control_data r' v' g) =
         set_control_data r' v' (set_control_data r v g)"
proof (cases "fst r = fst r'")
  case False
  then show ?thesis
    unfolding set_control_data_def upd_control_port_def by (rule upd_node_swap)
next
  case True
  with assms have ne: "snd r \<noteq> snd r'" by (simp add: prod_eq_iff)
  then show ?thesis
    unfolding set_control_data_def upd_control_port_def True upd_node_twice
    by (intro upd_node_cong) (simp add: list_update_swap [of "snd r" "snd r'"])
qed

lemma set_all_absorb:
  "set_control_data r v (set_all ws (set_control_data r v' h)) = set_control_data r v (set_all ws h)"
proof (induction ws arbitrary: h)
  case Nil
  show ?case by (simp add: set_control_data_absorb)
next
  case (Cons w ws)
  obtain r1 v1 where w: "w = (r1, v1)" by (cases w)
  show ?case
  proof (cases "r1 = r")
    case True
    then show ?thesis by (simp add: w set_control_data_absorb)
  next
    case False
    then have "set_control_data r1 v1 (set_control_data r v' h) =
        set_control_data r v' (set_control_data r1 v1 h)"
      by (rule set_control_data_swap)
    then show ?thesis by (simp add: w Cons.IH)
  qed
qed

lemma set_all_idem: "set_all ws (set_all ws g) = set_all ws g"
proof (induction ws arbitrary: g rule: rev_induct)
  case Nil
  show ?case by simp
next
  case (snoc w ws)
  obtain r v where w: "w = (r, v)" by (cases w)
  show ?case
    by (simp add: w set_all_absorb snoc.IH)
qed


lemma control_ref_set_control_data [simp]:
  "control_ref (set_control_data r' v g) r = control_ref g r"
  using set_control_data_same_ports [of g "fst r" r' v]
  by (auto simp: control_ref_def same_ports_def dest: map_eq_imp_length_eq)

lemma control_data_set_control_data:
  "control_ref g r \<Longrightarrow>
     control_data (get_control_port (set_control_data r' v g) r) =
       (if r = r' then v else control_data (get_control_port g r))"
  unfolding set_control_data_def upd_control_port_def get_control_port_def control_ref_def
  by (cases r; cases r')
     (auto simp: nth_upd_node nth_list_update simp del: node_list_upd_node)

lemma param_write_control_ref:
  assumes "node_list g \<noteq> []" and "w \<in> set (param_write atou32 g nm val)"
  shows "control_ref g (fst w)"
proof (cases "find_port atou32 g 0 nm {FC_PORT_INPUT, FC_PORT_CONTROL}")
  case None
  with assms(2) show ?thesis by (simp add: param_write_def)
next
  case (Some r)
  from assms(1) have k0: "0 < length (node_list g)" by simp
  from assms(2) Some have "fst w = r" by (simp add: param_write_def)
  with find_port_node [OF Some k0] find_port_control [OF Some k0] show ?thesis
    by (simp add: control_ref_def)
qed

lemma param_writes_control_ref:
  "node_list g \<noteq> [] \<Longrightarrow> w \<in> set (param_writes ops atou32 g pods) \<Longrightarrow> control_ref g (fst w)"
proof (induction ops atou32 g pods rule: param_writes.induct)
  case (2 ops atou32 g nm)
  then show ?case by (simp add: param_write_control_ref)
next
  case (3 ops atou32 g nm v pods)
  from "3.prems"(2) have "w \<in> set (param_write atou32 g nm (parse_params_value ops v)) \<or>
      w \<in> set (param_writes ops atou32 g pods)" by simp
  then show ?case
    using "3.prems"(1) "3.IH" by (auto simp: param_write_control_ref)
qed simp_all

lemma changes_zero:
  assumes "\<forall>w\<in>set ws. control_ref g (fst w) \<and>
             control_data (get_control_port g (fst w)) = snd w \<and> f_eq ops (snd w) (snd w)"
  shows "changes ops ws g = 0"
  using assms
proof (induction ws arbitrary: g)
  case Nil
  show ?case by simp
next
  case (Cons w ws)
  obtain r v where w: "w = (r, v)" by (cases w)
  from Cons.prems have hd: "control_data (get_control_port g r) = v" "f_eq ops v v"
    by (simp_all add: w)
  have "changes ops ws (set_control_data r v g) = 0"
  proof (rule Cons.IH, rule ballI)
    fix w' assume "w' \<in> set ws"
    with Cons.prems have "control_ref g (fst w')"
      "control_data (get_control_port g (fst w')) = snd w'" "f_eq ops (snd w') (snd w')"
      by simp_all
    with hd show "control_ref (set_control_data r v g) (fst w') \<and>
        control_data (get_control_port (set_control_data r v g) (fst w')) = snd w' \<and>
        f_eq ops (snd w') (snd w')"
      by (auto simp: control_data_set_control_data)
  qed
  with hd show ?case by (simp add: w)
qed

lemma control_ref_set_all [simp]: "control_ref (set_all ws g) r = control_ref g r"
proof (induction ws arbitrary: g)
  case Nil
  show ?case by simp
next
  case (Cons w ws)
  obtain r' v where "w = (r', v)" by (cases w)
  then show ?case by (simp add: Cons.IH)
qed

lemma control_data_set_all:
  assumes "w \<in> set ws" and "control_ref g (fst w)"
    and "\<forall>w\<in>set ws. \<forall>w'\<in>set ws. fst w = fst w' \<longrightarrow> snd w = snd w'"
  shows "control_data (get_control_port (set_all ws g) (fst w)) = snd w"
  using assms
proof (induction ws arbitrary: g rule: rev_induct)
  case Nil
  then show ?case by simp
next
  case (snoc x xs)
  obtain r v where x: "x = (r, v)" by (cases x)
  have step: "set_all (xs @ [x]) g = set_control_data r v (set_all xs g)"
    by (simp add: x)
  have ref: "control_ref (set_all xs g) (fst w)"
    using snoc.prems(2) by simp
  have eq: "control_data (get_control_port (set_all (xs @ [x]) g) (fst w)) =
      (if fst w = r then v else control_data (get_control_port (set_all xs g) (fst w)))"
    unfolding step by (rule control_data_set_control_data [OF ref])
  show ?case
  proof (cases "fst w = r")
    case True
    have "x \<in> set (xs @ [x])" by simp
    with snoc.prems(1,3) have "fst w = fst x \<longrightarrow> snd w = snd x" by blast
    with True have "snd w = v" by (simp add: x)
    with True show ?thesis unfolding eq by simp
  next
    case False
    with snoc.prems(1) have mem: "w \<in> set xs" by (auto simp: x)
    have "\<forall>w\<in>set xs. \<forall>w'\<in>set xs. fst w = fst w' \<longrightarrow> snd w = snd w'"
    proof (intro ballI impI)
      fix a b assume "a \<in> set xs" "b \<in> set xs" "fst a = fst b"
      then have "a \<in> set (xs @ [x])" "b \<in> set (xs @ [x])" by simp_all
      with snoc.prems(3) \<open>fst a = fst b\<close> show "snd a = snd b" by blast
    qed
    with mem snoc.prems(2) have "control_data (get_control_port (set_all xs g) (fst w)) = snd w"
      by (rule snoc.IH)
    with False show ?thesis unfolding eq by simp
  qed
qed

lemma parse_params_loop_no_nodes:
  "node_list g = [] \<Longrightarrow> parse_params_loop ops atou32 pods c g = Some (c', g') \<Longrightarrow>
     g' = g \<and> c' = c"
  by (induction ops atou32 pods c g rule: parse_params_loop.induct) simp_all


lemma parse_params_Struct_eq:
  assumes "node_list g \<noteq> []"
  shows "parse_params ops atou32 g (Pod_Struct pods) =
     Some (changes ops (param_writes ops atou32 g pods) g, set_all (param_writes ops atou32 g pods) g)"
  using parse_params_loop_eq [OF assms, of ops atou32 pods 0] by (simp add: parse_params_def)

lemma parse_params_not_struct:
  "\<forall>pods. pod \<noteq> Pod_Struct pods \<Longrightarrow> parse_params ops atou32 g pod = Some (0, g)"
  by (cases pod) (simp_all add: parse_params_def)

lemma parse_params_no_nodes:
  assumes "node_list g = []" and "parse_params ops atou32 g pod = Some (c1, g1)"
  shows "g1 = g" and "c1 = 0"
proof -
  have "g1 = g \<and> c1 = 0"
  proof (cases pod)
    case (Pod_Struct pods)
    with assms(2) have "parse_params_loop ops atou32 pods 0 g = Some (c1, g1)"
      by (simp add: parse_params_def)
    with assms(1) show ?thesis by (rule parse_params_loop_no_nodes)
  qed (use assms(2) in \<open>simp_all add: parse_params_def\<close>)
  then show "g1 = g" and "c1 = 0" by blast+
qed

lemma parse_params_second:
  assumes "node_list g \<noteq> []"
  shows "parse_params ops atou32 (set_all (param_writes ops atou32 g pods) g) (Pod_Struct pods) =
     Some (changes ops (param_writes ops atou32 g pods) (set_all (param_writes ops atou32 g pods) g),
           set_all (param_writes ops atou32 g pods) g)"
proof -
  let ?ws = "param_writes ops atou32 g pods"
  have ne1: "node_list (set_all ?ws g) \<noteq> []"
    unfolding set_all_Nil by (rule assms)
  have ws1: "param_writes ops atou32 (set_all ?ws g) pods = ?ws"
    using assms by (rule param_writes_set_all)
  show ?thesis
    unfolding parse_params_Struct_eq [OF ne1] ws1 set_all_idem ..
qed

lemma changes_second_zero:
  assumes ne: "node_list g \<noteq> []"
    and cons: "\<forall>w\<in>set (param_writes ops atou32 g pods).
        \<forall>w'\<in>set (param_writes ops atou32 g pods). fst w = fst w' \<longrightarrow> snd w = snd w'"
    and refl: "\<forall>w\<in>set (param_writes ops atou32 g pods). f_eq ops (snd w) (snd w)"
  shows "changes ops (param_writes ops atou32 g pods)
           (set_all (param_writes ops atou32 g pods) g) = 0"
proof (rule changes_zero, rule ballI)
  let ?ws = "param_writes ops atou32 g pods"
  fix w assume w: "w \<in> set ?ws"
  from param_writes_control_ref [OF ne w] have ref: "control_ref g (fst w)" .
  have cd: "control_data (get_control_port (set_all ?ws g) (fst w)) = snd w"
    by (rule control_data_set_all [OF w ref cons])
  have r1: "control_ref (set_all ?ws g) (fst w)"
    unfolding control_ref_set_all by (rule ref)
  from refl w have "f_eq ops (snd w) (snd w)" by blast
  with cd r1 show "control_ref (set_all ?ws g) (fst w) \<and>
      control_data (get_control_port (set_all ?ws g) (fst w)) = snd w \<and> f_eq ops (snd w) (snd w)"
    by blast
qed

lemma parse_params_twice_struct:
  assumes "parse_params ops atou32 g (Pod_Struct pods) = Some (c1, g1)"
  shows "\<exists>c2. parse_params ops atou32 g1 (Pod_Struct pods) = Some (c2, g1) \<and>
    ((\<forall>w\<in>set (param_writes ops atou32 g pods).
        \<forall>w'\<in>set (param_writes ops atou32 g pods). fst w = fst w' \<longrightarrow> snd w = snd w') \<and>
     (\<forall>w\<in>set (param_writes ops atou32 g pods). f_eq ops (snd w) (snd w))
     \<longrightarrow> c2 = 0)"
proof (cases "node_list g = []")
  case True
  from parse_params_no_nodes [OF True assms] have eq: "g1 = g" "c1 = 0" .
  have "parse_params ops atou32 g1 (Pod_Struct pods) = Some (0, g1)"
    using assms unfolding eq .
  then show ?thesis by blast
next
  case ne: False
  let ?ws = "param_writes ops atou32 g pods"
  have "Some (c1, g1) = Some (changes ops ?ws g, set_all ?ws g)"
    using assms unfolding parse_params_Struct_eq [OF ne] by (rule sym)
  then have g1: "g1 = set_all ?ws g" by blast
  have second: "parse_params ops atou32 g1 (Pod_Struct pods) = Some (changes ops ?ws g1, g1)"
    unfolding g1 by (rule parse_params_second [OF ne])
  have zero: "changes ops ?ws g1 = 0"
    if "(\<forall>w\<in>set ?ws. \<forall>w'\<in>set ?ws. fst w = fst w' \<longrightarrow> snd w = snd w') \<and>
        (\<forall>w\<in>set ?ws. f_eq ops (snd w) (snd w))"
    unfolding g1 using that by (intro changes_second_zero [OF ne]) blast+
  from second zero show ?thesis by blast
qed

text \<open>
  C8, as the code has it. When a parameter update has been applied, applying the same
  update again leaves the graph as it was after the first application: every
  \<^verbatim>\<open>control_data\<close> keeps its value, and \<^verbatim>\<open>get_props_param\<close> gives the same
  snapshot. The second application reports zero changes when no control port is
  written twice with different values by the update and every value written compares
  equal to itself (is no NaN).
\<close>

theorem C8_update_twice:
  assumes "parse_params ops atou32 g pod = Some (c1, g1)"
  shows "\<exists>c2 g2. parse_params ops atou32 g1 pod = Some (c2, g2) \<and> g2 = g1 \<and>
    get_props_param ops g2 = get_props_param ops g1 \<and>
    ((\<forall>w\<in>set (parse_params_writes ops atou32 g pod).
        \<forall>w'\<in>set (parse_params_writes ops atou32 g pod). fst w = fst w' \<longrightarrow> snd w = snd w') \<and>
     (\<forall>w\<in>set (parse_params_writes ops atou32 g pod). f_eq ops (snd w) (snd w))
     \<longrightarrow> c2 = 0)"
proof (cases "\<exists>pods. pod = Pod_Struct pods")
  case True
  then obtain pods where pod: "pod = Pod_Struct pods" by blast
  have ws: "parse_params_writes ops atou32 g (Pod_Struct pods) = param_writes ops atou32 g pods"
    unfolding parse_params_writes_def by simp
  from assms have "parse_params ops atou32 g (Pod_Struct pods) = Some (c1, g1)"
    unfolding pod .
  from parse_params_twice_struct [OF this] show ?thesis
    unfolding pod ws by blast
next
  case False
  then have ns: "\<forall>pods. pod \<noteq> Pod_Struct pods" by blast
  have "parse_params ops atou32 g1 pod = Some (0, g1)"
    using ns by (rule parse_params_not_struct)
  then show ?thesis by blast
qed


lemma planned_gain_first:
  "Option.is_none (parse_params exact_ops no_number planned_gain quarter_gain) = False"
  by code_simp


lemma quarter_writes:
  "parse_params_writes exact_ops no_number planned_gain quarter_gain = [((0, 0), 1 / 4)]"
  by code_simp

theorem C8_update_twice_witness:
  "parse_params exact_ops no_number quarter_graph quarter_gain = Some (0, quarter_graph)"
proof -
  define P where "P = parse_params exact_ops no_number planned_gain quarter_gain"
  have "Option.is_none P = False"
    unfolding P_def by (rule planned_gain_first)
  then have "P = Some (fst (the P), snd (the P))"
    by (cases P) simp_all
  then have first: "parse_params exact_ops no_number planned_gain quarter_gain =
      Some (fst (the P), quarter_graph)"
    unfolding quarter_graph_def P_def [symmetric] .
  from C8_update_twice [OF first] obtain c2 where
    second: "parse_params exact_ops no_number quarter_graph quarter_gain = Some (c2, quarter_graph)"
    and zero: "(\<forall>w\<in>set (parse_params_writes exact_ops no_number planned_gain quarter_gain).
        \<forall>w'\<in>set (parse_params_writes exact_ops no_number planned_gain quarter_gain).
          fst w = fst w' \<longrightarrow> snd w = snd w') \<and>
      (\<forall>w\<in>set (parse_params_writes exact_ops no_number planned_gain quarter_gain).
          f_eq exact_ops (snd w) (snd w)) \<longrightarrow> c2 = 0"
    by blast
  have "c2 = 0"
    by (rule zero [rule_format], unfold quarter_writes) (simp add: exact_ops_def)
  with second show ?thesis by simp
qed

text \<open>
  The claim C8 says the second application of the same update reports zero changes.
  The update that sets "Gain 1" to 1.0 and then "mix:Gain 1" (the same port) to 2.0
  reports one change on the planned node, whose gain is 1.0, and two changes when it
  is applied again.
\<close>

theorem C8_counterexample:
  "map_option fst (parse_params exact_ops no_number planned_gain two_gains) = Some 1
   \<and> map_option fst (parse_params exact_ops no_number
        (snd (the (parse_params exact_ops no_number planned_gain two_gains))) two_gains) = Some 2"
  by code_simp


end
